theory Spec2Isabelle
  imports
    Main
    "HOL-Library.Char_ord"
    "HOL-Library.List_Lexorder"
    "HOL-Library.Multiset"
    "HOL-Library.AList"
begin

section \<open>msggen/utils/utils.py: schema bundling and service loading\<close>

text \<open>
  A shallow embedding of \<^verbatim>\<open>contrib/msggen/msggen/utils/utils.py\<close>.

  Python strings are \<^typ>\<open>string\<close>, a character being a code point below 256; every
  name of the manifest is ASCII. Strings are ordered as Python orders them: lexicographically by code point, a proper
  prefix before its extensions (\<^verbatim>\<open>Char_ord\<close> and \<^verbatim>\<open>List_Lexorder\<close>).
  An exception is a value of type \<open>error\<close>, and a function that may raise returns
  \<open>error + 'a\<close> with \<open>Inl\<close> for the exception.
\<close>

subsection \<open>Exceptions\<close>

datatype error =
    FileNotFoundError
  | NotADirectoryError
  | IsADirectoryError
  | PermissionError
  | JSONDecodeError
  | KeyError string
  | TypeError
  | RecursionError
  | SchemaShapeError string

text \<open>Python's \<^verbatim>\<open>KeyError\<close> is the only one of these below \<^verbatim>\<open>LookupError\<close>.\<close>

fun is_LookupError :: "error \<Rightarrow> bool" where
  "is_LookupError (KeyError k) = True"
| "is_LookupError e = False"

text \<open>The next statement runs only if the one before it has not raised.\<close>

fun and_then :: "error + 'a \<Rightarrow> ('a \<Rightarrow> error + 'b) \<Rightarrow> error + 'b" where
  "and_then (Inl e) f = Inl e"
| "and_then (Inr x) f = f x"

subsection \<open>Strings\<close>

text \<open>\<^verbatim>\<open>str.endswith\<close> and \<^verbatim>\<open>str.lower\<close>.\<close>

definition endswith :: "string \<Rightarrow> string \<Rightarrow> bool" where
  "endswith s suf \<longleftrightarrow>
     length suf \<le> length s \<and> drop (length s - length suf) s = suf"

text \<open>
  The capital letters below 256 are \<^verbatim>\<open>A\<close> to \<^verbatim>\<open>Z\<close> and the code points
  \<^verbatim>\<open>C0\<close> to \<^verbatim>\<open>DE\<close> without the multiplication sign \<^verbatim>\<open>D7\<close>. A capital
  letter becomes its small letter: 32 is added, which sets bit 5.
\<close>

definition lower_char :: "char \<Rightarrow> char" where
  "lower_char c =
     (if (CHR ''A'' \<le> c \<and> c \<le> CHR ''Z'')
         \<or> (CHR 0xC0 \<le> c \<and> c \<le> CHR 0xDE \<and> c \<noteq> CHR 0xD7)
      then (case c of Char b0 b1 b2 b3 b4 b5 b6 b7 \<Rightarrow> Char b0 b1 b2 b3 b4 True b6 b7)
      else c)"

definition lower :: "string \<Rightarrow> string" where
  "lower s = map lower_char s"

subsection \<open>JSON values and \<^verbatim>\<open>json.dump\<close>\<close>

text \<open>
  What \<^verbatim>\<open>json.load\<close> returns. A number is kept as its Python \<^verbatim>\<open>repr\<close>, which is
  the text \<^verbatim>\<open>json.dump\<close> writes for it. A \<^verbatim>\<open>dict\<close> keeps its insertion order and is
  an association list; \<^verbatim>\<open>d[k] = v\<close> is \<^const>\<open>AList.update\<close>, which replaces the value
  of a key in place and appends a new key at the end, as \<^verbatim>\<open>OrderedDict\<close> does.
\<close>

datatype json =
    JNull
  | JBool bool
  | JNumber string
  | JString string
  | JArray "json list"
  | JObject "(string \<times> json) list"

text \<open>\<^verbatim>\<open>obj[key]\<close> for a string key: only a \<^verbatim>\<open>dict\<close> can be subscripted by a string.\<close>

fun getitem :: "json \<Rightarrow> string \<Rightarrow> error + json" where
  "getitem (JObject kvs) k =
     (case map_of kvs k of None \<Rightarrow> Inl (KeyError k) | Some v \<Rightarrow> Inr v)"
| "getitem j k = Inl TypeError"

text \<open>
  \<^verbatim>\<open>json.dumps(obj, indent=n)\<close>, as the encoder of the standard library writes it with
  its default separators \<^verbatim>\<open>(',', ': ')\<close> and \<^verbatim>\<open>ensure_ascii=True\<close>; the characters
  are the code points below 256.
\<close>

definition hex_digit :: "nat \<Rightarrow> char" where
  "hex_digit n = ''0123456789abcdef'' ! (n mod 16)"

definition escape_char :: "char \<Rightarrow> string" where
  "escape_char c =
     (if c = CHR 0x22 then [CHR 0x5C, CHR 0x22]
      else if c = CHR 0x5C then [CHR 0x5C, CHR 0x5C]
      else if c = CHR 0x0A then [CHR 0x5C, CHR ''n'']
      else if c = CHR 0x0D then [CHR 0x5C, CHR ''r'']
      else if c = CHR 0x09 then [CHR 0x5C, CHR ''t'']
      else if c = CHR 0x08 then [CHR 0x5C, CHR ''b'']
      else if c = CHR 0x0C then [CHR 0x5C, CHR ''f'']
      else if CHR '' '' \<le> c \<and> c \<le> CHR ''~'' then [c]
      else [CHR 0x5C, CHR ''u'', CHR ''0'', CHR ''0'',
            hex_digit (of_char c div 16), hex_digit (of_char c)])"

definition encode_basestring_ascii :: "string \<Rightarrow> string" where
  "encode_basestring_ascii s = CHR 0x22 # concat (map escape_char s) @ [CHR 0x22]"

definition newline_indent :: "nat \<Rightarrow> nat \<Rightarrow> string" where
  "newline_indent indent level = CHR 0x0A # replicate (indent * level) CHR '' ''"

fun join :: "string \<Rightarrow> string list \<Rightarrow> string" where
  "join sep [] = []"
| "join sep [x] = x"
| "join sep (x # y # ys) = x @ sep @ join sep (y # ys)"

fun dumps :: "nat \<Rightarrow> nat \<Rightarrow> json \<Rightarrow> string" where
  "dumps indent level JNull = ''null''"
| "dumps indent level (JBool b) = (if b then ''true'' else ''false'')"
| "dumps indent level (JNumber r) = r"
| "dumps indent level (JString s) = encode_basestring_ascii s"
| "dumps indent level (JArray vs) =
     (if vs = [] then ''[]''
      else ''['' @ newline_indent indent (Suc level)
           @ join ('','' @ newline_indent indent (Suc level))
                  (map (dumps indent (Suc level)) vs)
           @ newline_indent indent level @ '']'')"
| "dumps indent level (JObject kvs) =
     (if kvs = [] then ''{}''
      else ''{'' @ newline_indent indent (Suc level)
           @ join ('','' @ newline_indent indent (Suc level))
                  (map (\<lambda>kv. encode_basestring_ascii (fst kv) @ '': ''
                              @ dumps indent (Suc level) (snd kv)) kvs)
           @ newline_indent indent level @ ''}'')"

subsection \<open>The file system that \<^verbatim>\<open>combine_schemas\<close> sees\<close>

text \<open>
  A path names a file with its text, a directory with its children (name and node), or
  nothing (\<open>None\<close>). \<^verbatim>\<open>Path.iterdir\<close> yields the children of a directory in an order
  the operating system chooses: the parameter \<open>order\<close> is that choice, some rearrangement
  of the children.
\<close>

datatype node = File string | Dir "(string \<times> node) list"

fun iterdir :: "((string \<times> node) list \<Rightarrow> (string \<times> node) list) \<Rightarrow> node option
    \<Rightarrow> error + (string \<times> node) list" where
  "iterdir order None = Inl FileNotFoundError"
| "iterdir order (Some (File text)) = Inl NotADirectoryError"
| "iterdir order (Some (Dir children)) = Inr (order children)"

text \<open>\<^verbatim>\<open>schema_dir / "notification"\<close>\<close>

fun child :: "node option \<Rightarrow> string \<Rightarrow> node option" where
  "child (Some (Dir children)) n = map_of children n"
| "child p n = None"

text \<open>
  \<^verbatim>\<open>json.load(f.open())\<close>: opening a directory raises; \<open>json_load\<close> is the parser of
  the standard library, \<open>None\<close> where it raises \<^verbatim>\<open>JSONDecodeError\<close>.
\<close>

fun load_file :: "(string \<Rightarrow> json option) \<Rightarrow> node \<Rightarrow> error + json" where
  "load_file json_load (Dir children) = Inl IsADirectoryError"
| "load_file json_load (File text) =
     (case json_load text of None \<Rightarrow> Inl JSONDecodeError | Some j \<Rightarrow> Inr j)"

text \<open>
  A directory holds each name once, and so does every directory below it. An enumeration
  order rearranges the children and neither drops nor repeats one.
\<close>

fun well_formed :: "node \<Rightarrow> bool" where
  "well_formed (File text) = True"
| "well_formed (Dir children) =
     (distinct (map fst children) \<and> (\<forall>c\<in>set children. well_formed (snd c)))"

definition rearranges :: "('a list \<Rightarrow> 'a list) \<Rightarrow> bool" where
  "rearranges order \<longleftrightarrow> (\<forall>xs. mset (order xs) = mset xs)"

subsection \<open>\<^verbatim>\<open>combine_schemas\<close>\<close>

text \<open>The two filters of the two loops, as the source writes them.\<close>

definition method_file :: "string \<Rightarrow> bool" where
  "method_file name \<longleftrightarrow> \<not> (\<not> endswith name ''.json'' \<or> name = ''lightning-sql.json'')"

definition notification_file :: "string \<Rightarrow> bool" where
  "notification_file name \<longleftrightarrow> \<not> (\<not> endswith name ''json'')"

text \<open>
  One \<^verbatim>\<open>for f in files\<close> loop: \<open>acc\<close> is the ordered dictionary being filled, and the
  first exception ends the loop.
\<close>

fun parse_files :: "(string \<Rightarrow> bool) \<Rightarrow> (string \<Rightarrow> json option) \<Rightarrow> (string \<times> node) list
    \<Rightarrow> (string \<times> json) list \<Rightarrow> error + (string \<times> json) list" where
  "parse_files keep json_load [] acc = Inr acc"
| "parse_files keep json_load ((name, f) # files) acc =
     (if \<not> keep name then parse_files keep json_load files acc
      else (case load_file json_load f of
              Inl e \<Rightarrow> Inl e
            | Inr j \<Rightarrow> parse_files keep json_load files (AList.update name j acc)))"

text \<open>
  The body up to the write: the two directories are listed and sorted, the two loops run,
  and the bundle is put together. Any exception ends it.
\<close>

definition collect_schemas ::
  "((string \<times> node) list \<Rightarrow> (string \<times> node) list) \<Rightarrow> (string \<Rightarrow> json option)
    \<Rightarrow> node option \<Rightarrow> error + json" where
  "collect_schemas order json_load schema_dir =
     and_then (iterdir order schema_dir) (\<lambda>files.
     and_then (parse_files method_file json_load (sort_key fst files) []) (\<lambda>methods.
     and_then (iterdir order (child schema_dir ''notification'')) (\<lambda>files.
     and_then (parse_files notification_file json_load (sort_key fst files) [])
       (\<lambda>notifications.
     Inr (JObject (AList.update ''notifications'' (JObject notifications)
                    (AList.update ''methods'' (JObject methods) [])))))))"

text \<open>
  The destination is \<open>Inl e\<close> when opening it for writing raises \<open>e\<close>, and otherwise
  \<open>Inr\<close> of its present text (\<open>None\<close>: no such file yet). It lies outside the schema
  directory. Opening it empties it, and \<^verbatim>\<open>json.dump(bundle, f, indent=2)\<close> writes the
  text piece by piece. The encoder can raise on the way (it calls itself once for every
  level of nesting, and the interpreter bounds the depth of calls): \<open>dump_raises\<close> says for
  which bundles it does, with the exception and the text written until then. The function
  returns what the Python returns or raises, and the destination afterwards.
\<close>

definition combine_schemas ::
  "((string \<times> node) list \<Rightarrow> (string \<times> node) list) \<Rightarrow> (string \<Rightarrow> json option)
    \<Rightarrow> (json \<Rightarrow> (error \<times> string) option)
    \<Rightarrow> node option \<Rightarrow> error + string option
    \<Rightarrow> (error + json) \<times> (error + string option)" where
  "combine_schemas order json_load dump_raises schema_dir dest =
     (case collect_schemas order json_load schema_dir of
        Inl e \<Rightarrow> (Inl e, dest)
      | Inr bundle \<Rightarrow>
          (case dest of
             Inl e \<Rightarrow> (Inl e, dest)
           | Inr old \<Rightarrow>
               (case dump_raises bundle of
                  Some (e, written) \<Rightarrow> (Inl e, Inr (Some written))
                | None \<Rightarrow> (Inr bundle, Inr (Some (dumps 2 0 bundle))))))"

subsection \<open>\<^verbatim>\<open>get_schema_bundle\<close> under \<^verbatim>\<open>functools.lru_cache(maxsize=1)\<close>\<close>

text \<open>
  An object of the process is a value with its identity. The state of the process, as far as
  this module goes: the one slot of the cache (empty until a call has returned), how many
  times the packaged \<^verbatim>\<open>schema.json\<close> has been opened, and the identity the next new object
  gets.
\<close>

type_synonym obj = "nat \<times> json"

record process =
  cached :: "obj option"
  opened :: nat
  next_id :: nat

text \<open>
  A call with the slot filled returns the object in the slot and runs nothing. A call with
  the slot empty runs the body: \<^verbatim>\<open>resources.open_text\<close> raises when the artifact is not
  there (\<open>None\<close>), \<^verbatim>\<open>json.load\<close> raises on text it cannot parse, and only a returned
  value is stored.
\<close>

definition get_schema_bundle ::
  "(string \<Rightarrow> json option) \<Rightarrow> string option \<Rightarrow> process \<Rightarrow> (error + obj) \<times> process" where
  "get_schema_bundle json_load artifact st =
     (case cached st of
        Some b \<Rightarrow> (Inr b, st)
      | None \<Rightarrow>
          (let st1 = st\<lparr>opened := Suc (opened st)\<rparr> in
           case artifact of
             None \<Rightarrow> (Inl FileNotFoundError, st1)
           | Some text \<Rightarrow>
               (case json_load text of
                  None \<Rightarrow> (Inl JSONDecodeError, st1)
                | Some j \<Rightarrow>
                    (Inr (next_id st1, j),
                     st1\<lparr>cached := Some (next_id st1, j), next_id := Suc (next_id st1)\<rparr>))))"

subsection \<open>The model classes\<close>

text \<open>
  Modelled from the spec: the classes \<^verbatim>\<open>CompositeField\<close>, \<^verbatim>\<open>Method\<close>,
  \<^verbatim>\<open>Notification\<close>, \<^verbatim>\<open>Service\<close> and \<^verbatim>\<open>TypeName\<close> of \<^verbatim>\<open>msggen.model\<close> are
  not in this file. A composite field carries a mutable \<open>typename\<close>, and whatever else it
  carries is the extension of the record; a type name is its string; the other three have
  the fields the spec lists, given to the constructor in that order. The attribute \<open>x\<close>
  of a class is the field of the record that carries the name of the class before \<open>x\<close>,
  since the functions below use the plain names for their variables; the record of the class
  \<^verbatim>\<open>Method\<close> is \<open>jsonrpc_method\<close>. A composite field is
  built fresh by every call of the builder, so the request and the response of a method are
  two values.
\<close>

record composite_field =
  field_typename :: string

record 'a jsonrpc_method =
  method_name :: string
  method_request :: "'a composite_field_scheme"
  method_response :: "'a composite_field_scheme"

record 'a notification =
  notification_name :: string
  notification_typename :: string
  notification_request :: "'a composite_field_scheme"
  notification_response :: "'a composite_field_scheme"

record 'a service =
  service_name :: string
  service_methods :: "'a jsonrpc_method list"
  service_notifications :: "'a notification list"
  service_includes :: "string list"

subsection \<open>The two loaders\<close>

text \<open>
  \<^verbatim>\<open>CompositeField.from_js(js, path=name)\<close> is the parameter \<open>from_js\<close>: it returns a
  composite field or raises. The body of \<^verbatim>\<open>load_jsonrpc_method\<close> after the bundle has been
  fetched:
\<close>

definition method_of_schema ::
  "(json \<Rightarrow> string \<Rightarrow> error + 'a composite_field_scheme) \<Rightarrow> json \<Rightarrow> string
    \<Rightarrow> error + 'a jsonrpc_method" where
  "method_of_schema from_js schema name =
     (let rpc_name = ''lightning-'' @ lower name @ ''.json'' in
      and_then (and_then (and_then (and_then (getitem schema ''methods'')
          (\<lambda>ms. getitem ms rpc_name)) (\<lambda>m. getitem m ''request'')) (\<lambda>js. from_js js name))
        (\<lambda>request.
      and_then (and_then (and_then (and_then (getitem schema ''methods'')
          (\<lambda>ms. getitem ms rpc_name)) (\<lambda>m. getitem m ''response'')) (\<lambda>js. from_js js name))
        (\<lambda>response.
      Inr \<lparr>method_name = name,
           method_request = request\<lparr>field_typename := field_typename request @ ''Request''\<rparr>,
           method_response =
             response\<lparr>field_typename := field_typename response @ ''Response''\<rparr>\<rparr>)))"

definition load_jsonrpc_method ::
  "(json \<Rightarrow> string \<Rightarrow> error + 'a composite_field_scheme) \<Rightarrow> (string \<Rightarrow> json option)
    \<Rightarrow> string option \<Rightarrow> string \<Rightarrow> process \<Rightarrow> (error + 'a jsonrpc_method) \<times> process" where
  "load_jsonrpc_method from_js json_load artifact name st =
     (case get_schema_bundle json_load artifact st of
        (Inl e, st') \<Rightarrow> (Inl e, st')
      | (Inr schema, st') \<Rightarrow> (method_of_schema from_js (snd schema) name, st'))"

text \<open>The body of \<^verbatim>\<open>load_notification\<close> after the bundle has been fetched:\<close>

definition notification_of_schema ::
  "(json \<Rightarrow> string \<Rightarrow> error + 'a composite_field_scheme) \<Rightarrow> json \<Rightarrow> string \<Rightarrow> string
    \<Rightarrow> error + 'a notification" where
  "notification_of_schema from_js schema name typename =
     and_then (getitem schema ''notifications'') (\<lambda>notifications.
     (let req_file = lower name @ ''.request.json'';
          resp_file = lower name @ ''.schema.json'' in
      and_then (and_then (getitem notifications req_file) (\<lambda>js. from_js js name))
        (\<lambda>request.
      and_then (and_then (getitem notifications resp_file) (\<lambda>js. from_js js name))
        (\<lambda>response.
      Inr \<lparr>notification_name = name, notification_typename = typename,
           notification_request =
             request\<lparr>field_typename := ''Stream'' @ typename @ ''Request''\<rparr>,
           notification_response =
             response\<lparr>field_typename := typename @ ''Notification''\<rparr>\<rparr>))))"

definition load_notification ::
  "(json \<Rightarrow> string \<Rightarrow> error + 'a composite_field_scheme) \<Rightarrow> (string \<Rightarrow> json option)
    \<Rightarrow> string option \<Rightarrow> string \<Rightarrow> string \<Rightarrow> process
    \<Rightarrow> (error + 'a notification) \<times> process" where
  "load_notification from_js json_load artifact name typename st =
     (case get_schema_bundle json_load artifact st of
        (Inl e, st') \<Rightarrow> (Inl e, st')
      | (Inr schema, st') \<Rightarrow> (notification_of_schema from_js (snd schema) name typename, st'))"

subsection \<open>\<^verbatim>\<open>load_jsonrpc_service\<close>\<close>

text \<open>The manifest: the entries that are not commented out, in the order of the source.\<close>

definition method_names :: "string list" where
  "method_names =
    [''Getinfo'', ''ListPeers'', ''ListFunds'', ''SendPay'', ''ListChannels'',
     ''AddGossip'', ''AutoCleanInvoice'', ''AutoClean-Once'', ''AutoClean-Status'',
     ''CheckMessage'', ''Close'', ''Connect'', ''CreateInvoice'', ''Datastore'',
     ''DatastoreUsage'', ''CreateOnion'', ''DelDatastore'', ''DelInvoice'', ''Invoice'',
     ''ListDatastore'', ''ListInvoices'', ''SendOnion'', ''ListSendPays'',
     ''ListTransactions'', ''Pay'', ''ListNodes'', ''WaitAnyInvoice'', ''WaitInvoice'',
     ''WaitSendPay'', ''NewAddr'', ''Withdraw'', ''KeySend'', ''FundPsbt'', ''SendPsbt'',
     ''SignPsbt'', ''UtxoPsbt'', ''TxDiscard'', ''TxPrepare'', ''TxSend'',
     ''ListPeerChannels'', ''ListClosedChannels'', ''DecodePay'', ''Decode'', ''DelPay'',
     ''DelForward'', ''DisableOffer'', ''Disconnect'', ''Feerates'', ''FetchInvoice'',
     ''FundChannel_Cancel'', ''FundChannel_Complete'', ''FundChannel'',
     ''FundChannel_Start'', ''GetLog'', ''GetRoute'', ''ListForwards'', ''ListOffers'',
     ''ListPays'', ''ListHtlcs'', ''MultiFundChannel'', ''Offer'', ''OpenChannel_Abort'',
     ''OpenChannel_Bump'', ''OpenChannel_Init'', ''OpenChannel_Signed'',
     ''OpenChannel_Update'', ''Ping'', ''Plugin'', ''RenePayStatus'', ''RenePay'',
     ''ReserveInputs'', ''SendCustomMsg'', ''SendInvoice'', ''SendOnionMessage'',
     ''SetChannel'', ''SetConfig'', ''SetPsbtVersion'', ''SignInvoice'', ''SignMessage'',
     ''Splice_Init'', ''Splice_Signed'', ''Splice_Update'', ''UnreserveInputs'',
     ''UpgradeWallet'', ''WaitBlockHeight'', ''Wait'', ''Stop'', ''PreApproveKeysend'',
     ''PreApproveInvoice'', ''StaticBackup'', ''Bkpr-ChannelsApy'', ''Bkpr-DumpIncomeCsv'',
     ''Bkpr-Inspect'', ''Bkpr-ListAccountEvents'', ''Bkpr-ListBalances'',
     ''Bkpr-ListIncome'']"

text \<open>Each dictionary \<^verbatim>\<open>{"name": n, "typename": t}\<close> is the pair \<open>(n, t)\<close>.\<close>

definition notification_names :: "(string \<times> string) list" where
  "notification_names =
    [(''block_added'', ''BlockAdded''),
     (''channel_open_failed'', ''ChannelOpenFailed''),
     (''channel_opened'', ''ChannelOpened''),
     (''connect'', ''Connect''),
     (''custommsg'', ''CustomMsg'')]"

text \<open>
  A list comprehension \<^verbatim>\<open>[load(x) for x in xs]\<close> whose body reads and writes the state
  of the process: the calls run in the order of the list, and the first one that raises
  ends the comprehension.
\<close>

fun load_each :: "('x \<Rightarrow> process \<Rightarrow> (error + 'y) \<times> process) \<Rightarrow> 'x list \<Rightarrow> process
    \<Rightarrow> (error + 'y list) \<times> process" where
  "load_each load [] st = (Inr [], st)"
| "load_each load (x # xs) st =
     (case load x st of
        (Inl e, st') \<Rightarrow> (Inl e, st')
      | (Inr y, st') \<Rightarrow>
          (case load_each load xs st' of
             (Inl e, st'') \<Rightarrow> (Inl e, st'')
           | (Inr ys, st'') \<Rightarrow> (Inr (y # ys), st'')))"

definition load_jsonrpc_service ::
  "(json \<Rightarrow> string \<Rightarrow> error + 'a composite_field_scheme) \<Rightarrow> (string \<Rightarrow> json option)
    \<Rightarrow> string option \<Rightarrow> process \<Rightarrow> (error + 'a service) \<times> process" where
  "load_jsonrpc_service from_js json_load artifact st =
     (case load_each (load_jsonrpc_method from_js json_load artifact) method_names st of
        (Inl e, st') \<Rightarrow> (Inl e, st')
      | (Inr methods, st') \<Rightarrow>
     (case load_each (\<lambda>names. load_notification from_js json_load artifact (fst names) (snd names))
             notification_names st' of
        (Inl e, st'') \<Rightarrow> (Inl e, st'')
      | (Inr notifications, st'') \<Rightarrow>
          (Inr \<lparr>service_name = ''Node'', service_methods = methods,
                service_notifications = notifications,
                service_includes = [''primitives.proto'']\<rparr>, st'')))"
subsection \<open>The type-model builder of the spec\<close>

text \<open>
  Modelled from the spec: \<^verbatim>\<open>CompositeField.from_js\<close> of \<^verbatim>\<open>msggen.model\<close> is not in
  this file. The spec gives the builder the contract
  \<^verbatim>\<open>build(schema_subtree, path_hint) -> CompositeField\<close>, lets it raise when a subtree
  cannot be turned into a composite type, and names the types of a method \<^verbatim>\<open>M\<close>
  \<^verbatim>\<open>MRequest\<close> and \<^verbatim>\<open>MResponse\<close>: the type name the builder assigns is the path hint.
  Which subtrees it accepts the spec leaves open; that is the parameter \<open>accepts\<close>.
\<close>

definition from_js_spec :: "(json \<Rightarrow> bool) \<Rightarrow> json \<Rightarrow> string \<Rightarrow> error + composite_field" where
  "from_js_spec accepts js path =
     (if accepts js then Inr \<lparr>field_typename = path\<rparr> else Inl (SchemaShapeError path))"

subsection \<open>Example inputs\<close>

text \<open>
  A process that has loaded nothing yet, and the bundle that holds an entry with an empty
  request and an empty response schema for each of the given methods, and the two entries of
  each of the given notifications.
\<close>

definition fresh_process :: process where
  "fresh_process = \<lparr>cached = None, opened = 0, next_id = 0\<rparr>"

definition bundle_of :: "string list \<Rightarrow> (string \<times> string) list \<Rightarrow> json" where
  "bundle_of ms ns = JObject
     [(''methods'', JObject (map (\<lambda>name. (''lightning-'' @ lower name @ ''.json'',
          JObject [(''request'', JObject []), (''response'', JObject [])])) ms)),
      (''notifications'', JObject (concat (map (\<lambda>names.
          [(lower (fst names) @ ''.request.json'', JObject []),
           (lower (fst names) @ ''.schema.json'', JObject [])]) ns)))]"

text \<open>
  A parser that knows two texts, and a schema directory with two method files, a generated
  file, a text that is no schema, and a notification directory.
\<close>

definition example_json_load :: "string \<Rightarrow> json option" where
  "example_json_load text =
     (if text = ''{}'' then Some (JObject [])
      else if text = ''[1]'' then Some (JArray [JNumber ''1''])
      else None)"

definition example_dir :: node where
  "example_dir = Dir
     [(''lightning-b.json'', File ''{}''),
      (''README.md'', File ''hello''),
      (''lightning-a.json'', File ''[1]''),
      (''lightning-sql.json'', File ''generated''),
      (''notification'', Dir
         [(''x.schema.json'', File ''{}''),
          (''x.request.json'', File ''{}''),
          (''notes.txt'', File ''zz'')])]"

text \<open>
  An encoder that never raises, a builder that accepts no subtree, and a bundle that has the
  request entry of the notification \<^verbatim>\<open>ghost\<close> and not its payload entry.
\<close>

definition dump_completes :: "json \<Rightarrow> (error \<times> string) option" where
  "dump_completes b = None"

definition accepts_nothing :: "json \<Rightarrow> bool" where
  "accepts_nothing js = False"

definition ghost_bundle :: json where
  "ghost_bundle = JObject
     [(''methods'', JObject []),
      (''notifications'', JObject [(''ghost.request.json'', JObject [])])]"

section \<open>Lemmas on the cache, the loaders and the assembler\<close>

lemma get_schema_bundle_hit:
  "cached st = Some b \<Longrightarrow> get_schema_bundle json_load artifact st = (Inr b, st)"
  by (simp add: get_schema_bundle_def)

lemma get_schema_bundle_fills:
  "get_schema_bundle json_load artifact st = (Inr b, st') \<Longrightarrow> cached st' = Some b"
  by (auto simp: get_schema_bundle_def Let_def split: option.splits)

lemma typename_suffixes_differ: "a @ ''Request'' \<noteq> b @ ''Response''"
proof
  assume "a @ ''Request'' = b @ ''Response''"
  then have "last (a @ ''Request'') = last (b @ ''Response'')" by simp
  then show False by simp
qed

lemma and_then_Inr_iff: "and_then r f = Inr y \<longleftrightarrow> (\<exists>x. r = Inr x \<and> f x = Inr y)"
  by (cases r) auto

lemma method_of_schema_typenames:
  "method_of_schema from_js schema name = Inr m \<Longrightarrow>
   field_typename (method_request m) \<noteq> field_typename (method_response m)"
  by (auto simp: method_of_schema_def Let_def and_then_Inr_iff typename_suffixes_differ)

lemma load_jsonrpc_method_fetch:
  "get_schema_bundle json_load artifact st = (Inr b, st') \<Longrightarrow>
   load_jsonrpc_method from_js json_load artifact name st
     = (method_of_schema from_js (snd b) name, st')"
  by (simp add: load_jsonrpc_method_def)

lemma load_jsonrpc_method_raise:
  "get_schema_bundle json_load artifact st = (Inl e, st') \<Longrightarrow>
   load_jsonrpc_method from_js json_load artifact name st = (Inl e, st')"
  by (simp add: load_jsonrpc_method_def)

lemma load_notification_fetch:
  "get_schema_bundle json_load artifact st = (Inr b, st') \<Longrightarrow>
   load_notification from_js json_load artifact name typename st
     = (notification_of_schema from_js (snd b) name typename, st')"
  by (simp add: load_notification_def)

lemma load_notification_raise:
  "get_schema_bundle json_load artifact st = (Inl e, st') \<Longrightarrow>
   load_notification from_js json_load artifact name typename st = (Inl e, st')"
  by (simp add: load_notification_def)

lemma method_of_schema_present:
  assumes "getitem schema ''methods'' = Inr ms"
    and "getitem ms (''lightning-'' @ lower name @ ''.json'') = Inr entry"
    and "getitem entry ''request'' = Inr rq"
    and "getitem entry ''response'' = Inr rs"
    and "from_js rq name = Inr request"
    and "from_js rs name = Inr response"
  shows "method_of_schema from_js schema name =
     Inr \<lparr>method_name = name,
          method_request = request\<lparr>field_typename := field_typename request @ ''Request''\<rparr>,
          method_response = response\<lparr>field_typename := field_typename response @ ''Response''\<rparr>\<rparr>"
  using assms by (simp add: method_of_schema_def)

lemma method_of_schema_absent:
  assumes "getitem schema ''methods'' = Inr (JObject ms)"
    and "map_of ms (''lightning-'' @ lower name @ ''.json'') = None"
  shows "method_of_schema from_js schema name = Inl (KeyError (''lightning-'' @ lower name @ ''.json''))"
  using assms by (simp add: method_of_schema_def)

lemma notification_of_schema_present:
  assumes "getitem schema ''notifications'' = Inr ns"
    and "getitem ns (lower name @ ''.request.json'') = Inr rq"
    and "getitem ns (lower name @ ''.schema.json'') = Inr rs"
    and "from_js rq name = Inr request"
    and "from_js rs name = Inr response"
  shows "notification_of_schema from_js schema name typename =
     Inr \<lparr>notification_name = name, notification_typename = typename,
          notification_request = request\<lparr>field_typename := ''Stream'' @ typename @ ''Request''\<rparr>,
          notification_response = response\<lparr>field_typename := typename @ ''Notification''\<rparr>\<rparr>"
  using assms by (simp add: notification_of_schema_def)

lemma notification_of_schema_request_absent:
  assumes "getitem schema ''notifications'' = Inr (JObject ns)"
    and "map_of ns (lower name @ ''.request.json'') = None"
  shows "notification_of_schema from_js schema name typename
           = Inl (KeyError (lower name @ ''.request.json''))"
  using assms by (simp add: notification_of_schema_def)

lemma notification_of_schema_response_absent:
  assumes "getitem schema ''notifications'' = Inr (JObject ns)"
    and "map_of ns (lower name @ ''.schema.json'') = None"
  shows "\<exists>e. notification_of_schema from_js schema name typename = Inl e"
    and "getitem (JObject ns) (lower name @ ''.request.json'') = Inr rq \<Longrightarrow> from_js rq name = Inr request \<Longrightarrow>
      notification_of_schema from_js schema name typename
           = Inl (KeyError (lower name @ ''.schema.json''))"
  using assms apply (auto simp add: notification_of_schema_def)
  apply (cases "getitem (JObject ns) (lower name @ ''.request.json'')")
   apply simp
  subgoal for v by (cases "from_js v name") auto
  done

lemma load_each_length:
  "load_each load xs st = (Inr ys, st') \<Longrightarrow> length ys = length xs"
  by (induction xs arbitrary: st ys) (auto split: prod.splits sum.splits)

lemma load_each_stable_state:
  "(\<And>x. load x st = (g x, st)) \<Longrightarrow> snd (load_each load xs st) = st"
  by (induction xs) (auto split: prod.splits sum.splits)

lemma load_each_first:
  assumes "\<And>x. load x st = (g x, st1)" and "\<And>x. load x st1 = (g x, st1)" and "xs \<noteq> []"
  shows "load_each load xs st = load_each load xs st1"
  using assms by (cases xs) auto

lemma load_each_stable_Inr:
  assumes stable: "\<And>x. load x st = (g x, st)"
  shows "load_each load xs st = (Inr ys, st) \<longleftrightarrow> map g xs = map Inr ys"
proof (induction xs arbitrary: ys)
  case Nil
  show ?case by auto
next
  case (Cons x xs)
  obtain r where r: "load_each load xs st = (r, st)"
    using load_each_stable_state [of load st g xs, OF stable] by (cases "load_each load xs st") auto
  show ?case
  proof (cases "g x")
    case (Inl e)
    then show ?thesis by (cases ys) (simp_all add: stable)
  next
    case gx: (Inr y)
    show ?thesis
    proof (cases r)
      case (Inl e)
      then have "\<And>zs. map g xs \<noteq> map Inr zs" using Cons.IH r by auto
      then show ?thesis using gx r Inl by (cases ys) (simp_all add: stable)
    next
      case (Inr zs)
      then have "map g xs = map Inr zs" using Cons.IH [of zs] r by simp
      then show ?thesis using gx r Inr
        by (cases ys) (auto simp add: stable inj_map_eq_map [OF inj_Inr])
    qed
  qed
qed

lemma load_each_stable_Inl:
  assumes stable: "\<And>x. load x st = (g x, st)"
    and "\<forall>a\<in>set as. \<exists>y. g a = Inr y"
    and "g x = Inl e"
  shows "load_each load (as @ x # bs) st = (Inl e, st)"
  using assms(2)
proof (induction as)
  case Nil
  show ?case using assms(3) by (simp add: stable)
next
  case (Cons a as)
  then obtain y where "g a = Inr y" by auto
  moreover have "load_each load (as @ x # bs) st = (Inl e, st)" using Cons by simp
  ultimately show ?case by (simp add: stable)
qed

lemma method_names_nonempty: "method_names \<noteq> []"
  by (simp add: method_names_def)

lemma load_jsonrpc_service_fetch:
  assumes get: "get_schema_bundle json_load artifact st = (Inr b, st1)"
  shows "load_jsonrpc_service from_js json_load artifact st =
     (case fst (load_each (load_jsonrpc_method from_js json_load artifact) method_names st1) of
        Inl e \<Rightarrow> (Inl e, st1)
      | Inr methods \<Rightarrow>
     (case fst (load_each (\<lambda>names. load_notification from_js json_load artifact (fst names) (snd names))
             notification_names st1) of
        Inl e \<Rightarrow> (Inl e, st1)
      | Inr notifications \<Rightarrow>
          (Inr \<lparr>service_name = ''Node'', service_methods = methods,
                service_notifications = notifications,
                service_includes = [''primitives.proto'']\<rparr>, st1)))"
proof -
  let ?lm = "load_jsonrpc_method from_js json_load artifact"
  let ?ln = "\<lambda>names. load_notification from_js json_load artifact (fst names) (snd names)"
  let ?g = "method_of_schema from_js (snd b)"
  let ?h = "\<lambda>names. notification_of_schema from_js (snd b) (fst names) (snd names)"
  have hit: "get_schema_bundle json_load artifact st1 = (Inr b, st1)"
    using get_schema_bundle_hit [OF get_schema_bundle_fills [OF get]] .
  have m0: "\<And>x. ?lm x st = (?g x, st1)" using load_jsonrpc_method_fetch [OF get] .
  have m1: "\<And>x. ?lm x st1 = (?g x, st1)" using load_jsonrpc_method_fetch [OF hit] .
  have n1: "\<And>x. ?ln x st1 = (?h x, st1)" using load_notification_fetch [OF hit] .
  have a: "load_each ?lm method_names st = load_each ?lm method_names st1"
    using load_each_first [of ?lm st ?g st1, OF m0 m1 method_names_nonempty] .
  have b: "snd (load_each ?lm method_names st1) = st1"
    using load_each_stable_state [of ?lm st1 ?g, OF m1] .
  have c: "snd (load_each ?ln notification_names st1) = st1"
    using load_each_stable_state [of ?ln st1 ?h, OF n1] .
  obtain r where r: "load_each ?lm method_names st1 = (r, st1)"
    using b by (cases "load_each ?lm method_names st1") auto
  obtain q where q: "load_each ?ln notification_names st1 = (q, st1)"
    using c by (cases "load_each ?ln notification_names st1") auto
  show ?thesis
    unfolding load_jsonrpc_service_def a r
    by (cases r; cases q) (simp_all add: q)
qed

lemma load_each_raise_first:
  "xs \<noteq> [] \<Longrightarrow> (\<And>x. load x st = (Inl e, st1)) \<Longrightarrow> load_each load xs st = (Inl e, st1)"
  by (cases xs) simp_all

lemma load_jsonrpc_service_raise:
  assumes get: "get_schema_bundle json_load artifact st = (Inl e, st1)"
  shows "load_jsonrpc_service from_js json_load artifact st = (Inl e, st1)"
proof -
  have "load_each (load_jsonrpc_method from_js json_load artifact) method_names st
      = (Inl e, st1)"
    using load_each_raise_first [OF method_names_nonempty]
      load_jsonrpc_method_raise [OF get] by blast
  then show ?thesis
    by (simp add: load_jsonrpc_service_def)
qed

lemma load_jsonrpc_service_sizes:
  assumes "load_jsonrpc_service from_js json_load artifact st = (Inr svc, st')"
  shows "service_name svc = ''Node'' \<and> length (service_methods svc) = 96
     \<and> length (service_notifications svc) = 5"
proof -
  from assms obtain ms ns st1 st2 where
    ms: "load_each (load_jsonrpc_method from_js json_load artifact) method_names st = (Inr ms, st1)"
    and ns: "load_each (\<lambda>names. load_notification from_js json_load artifact (fst names) (snd names))
             notification_names st1 = (Inr ns, st2)"
    and svc: "svc = \<lparr>service_name = ''Node'', service_methods = ms,
                service_notifications = ns, service_includes = [''primitives.proto'']\<rparr>"
    by (auto simp: load_jsonrpc_service_def split: prod.splits sum.splits)
  have "length ms = length method_names" using load_each_length [OF ms] .
  moreover have "length ns = length notification_names" using load_each_length [OF ns] .
  moreover have "length method_names = 96" by (simp add: method_names_def)
  moreover have "length notification_names = 5" by (simp add: notification_names_def)
  ultimately show ?thesis using svc by simp
qed

lemma load_each_stable_pair:
  assumes stable: "\<And>x. load x st = (g x, st)"
    and "fst (load_each load xs st) = r"
  shows "load_each load xs st = (r, st)"
  using load_each_stable_state [of load st g xs, OF stable] assms(2)
  by (cases "load_each load xs st") simp

lemma load_jsonrpc_service_Inr:
  assumes svc: "load_jsonrpc_service from_js json_load artifact st = (Inr svc, st')"
  obtains b where "get_schema_bundle json_load artifact st = (Inr b, st')"
    and "map (method_of_schema from_js (snd b)) method_names = map Inr (service_methods svc)"
    and "map (\<lambda>names. notification_of_schema from_js (snd b) (fst names) (snd names))
           notification_names = map Inr (service_notifications svc)"
    and "service_name svc = ''Node''"
    and "service_includes svc = [''primitives.proto'']"
proof -
  let ?lm = "load_jsonrpc_method from_js json_load artifact"
  let ?ln = "\<lambda>names. load_notification from_js json_load artifact (fst names) (snd names)"
  obtain r st1 where get: "get_schema_bundle json_load artifact st = (r, st1)"
    by (cases "get_schema_bundle json_load artifact st") auto
  show thesis
  proof (cases r)
    case (Inl e)
    with get svc load_jsonrpc_service_raise [of json_load artifact st e st1 from_js]
    show ?thesis by simp
  next
    case (Inr b)
    let ?g = "method_of_schema from_js (snd b)"
    let ?h = "\<lambda>names. notification_of_schema from_js (snd b) (fst names) (snd names)"
    have get': "get_schema_bundle json_load artifact st = (Inr b, st1)" using get Inr by simp
    have hit: "get_schema_bundle json_load artifact st1 = (Inr b, st1)"
      using get_schema_bundle_hit [OF get_schema_bundle_fills [OF get']] .
    have m1: "\<And>x. ?lm x st1 = (?g x, st1)" using load_jsonrpc_method_fetch [OF hit] .
    have n1: "\<And>x. ?ln x st1 = (?h x, st1)" using load_notification_fetch [OF hit] .
    note eq = load_jsonrpc_service_fetch [OF get', of from_js]
    from svc eq obtain ms ns where
      ms: "fst (load_each ?lm method_names st1) = Inr ms"
      and ns: "fst (load_each ?ln notification_names st1) = Inr ns"
      and s: "svc = \<lparr>service_name = ''Node'', service_methods = ms,
                service_notifications = ns, service_includes = [''primitives.proto'']\<rparr>"
      and st: "st' = st1"
      by (auto split: sum.splits)
    have "load_each ?lm method_names st1 = (Inr ms, st1)"
      using load_each_stable_pair [of ?lm st1 ?g, OF m1 ms] .
    then have a: "map ?g method_names = map Inr ms"
      using load_each_stable_Inr [of ?lm st1 ?g, OF m1] by simp
    have "load_each ?ln notification_names st1 = (Inr ns, st1)"
      using load_each_stable_pair [of ?ln st1 ?h, OF n1 ns] .
    then have b: "map ?h notification_names = map Inr ns"
      using load_each_stable_Inr [of ?ln st1 ?h, OF n1] by simp
    show ?thesis using that [of b] get' a b s st by simp
  qed
qed

lemma load_jsonrpc_service_all:
  assumes get: "get_schema_bundle json_load artifact st = (Inr b, st1)"
    and ms: "map (method_of_schema from_js (snd b)) method_names = map Inr ms"
    and ns: "map (\<lambda>names. notification_of_schema from_js (snd b) (fst names) (snd names))
           notification_names = map Inr ns"
  shows "load_jsonrpc_service from_js json_load artifact st =
     (Inr \<lparr>service_name = ''Node'', service_methods = ms,
                service_notifications = ns, service_includes = [''primitives.proto'']\<rparr>, st1)"
proof -
  let ?lm = "load_jsonrpc_method from_js json_load artifact"
  let ?ln = "\<lambda>names. load_notification from_js json_load artifact (fst names) (snd names)"
  let ?g = "method_of_schema from_js (snd b)"
  let ?h = "\<lambda>names. notification_of_schema from_js (snd b) (fst names) (snd names)"
  have hit: "get_schema_bundle json_load artifact st1 = (Inr b, st1)"
    using get_schema_bundle_hit [OF get_schema_bundle_fills [OF get]] .
  have m1: "\<And>x. ?lm x st1 = (?g x, st1)" using load_jsonrpc_method_fetch [OF hit] .
  have n1: "\<And>x. ?ln x st1 = (?h x, st1)" using load_notification_fetch [OF hit] .
  have a: "load_each ?lm method_names st1 = (Inr ms, st1)"
    using load_each_stable_Inr [of ?lm st1 ?g, OF m1] ms by simp
  have b: "load_each ?ln notification_names st1 = (Inr ns, st1)"
    using load_each_stable_Inr [of ?ln st1 ?h, OF n1] ns by simp
  show ?thesis
    unfolding load_jsonrpc_service_fetch [OF get] a b by simp
qed

lemma load_jsonrpc_service_method_raises:
  assumes get: "get_schema_bundle json_load artifact st = (Inr b, st1)"
    and split: "method_names = as @ name # bs"
    and before: "\<forall>a\<in>set as. \<exists>m. method_of_schema from_js (snd b) a = Inr m"
    and raises: "method_of_schema from_js (snd b) name = Inl e"
  shows "load_jsonrpc_service from_js json_load artifact st = (Inl e, st1)"
proof -
  let ?lm = "load_jsonrpc_method from_js json_load artifact"
  let ?g = "method_of_schema from_js (snd b)"
  have hit: "get_schema_bundle json_load artifact st1 = (Inr b, st1)"
    using get_schema_bundle_hit [OF get_schema_bundle_fills [OF get]] .
  have m1: "\<And>x. ?lm x st1 = (?g x, st1)" using load_jsonrpc_method_fetch [OF hit] .
  have a: "load_each ?lm (as @ name # bs) st1 = (Inl e, st1)"
    using load_each_stable_Inl [of ?lm st1 ?g as name e bs, OF m1 before raises] .
  show ?thesis
    unfolding load_jsonrpc_service_fetch [OF get] split a by simp
qed

lemma load_jsonrpc_service_notification_raises:
  assumes get: "get_schema_bundle json_load artifact st = (Inr b, st1)"
    and ms: "map (method_of_schema from_js (snd b)) method_names = map Inr ms"
    and split: "notification_names = as @ names # bs"
    and before: "\<forall>a\<in>set as. \<exists>n. notification_of_schema from_js (snd b) (fst a) (snd a) = Inr n"
    and raises: "notification_of_schema from_js (snd b) (fst names) (snd names) = Inl e"
  shows "load_jsonrpc_service from_js json_load artifact st = (Inl e, st1)"
proof -
  let ?lm = "load_jsonrpc_method from_js json_load artifact"
  let ?ln = "\<lambda>names. load_notification from_js json_load artifact (fst names) (snd names)"
  let ?g = "method_of_schema from_js (snd b)"
  let ?h = "\<lambda>names. notification_of_schema from_js (snd b) (fst names) (snd names)"
  have hit: "get_schema_bundle json_load artifact st1 = (Inr b, st1)"
    using get_schema_bundle_hit [OF get_schema_bundle_fills [OF get]] .
  have m1: "\<And>x. ?lm x st1 = (?g x, st1)" using load_jsonrpc_method_fetch [OF hit] .
  have n1: "\<And>x. ?ln x st1 = (?h x, st1)" using load_notification_fetch [OF hit] .
  have a: "load_each ?lm method_names st1 = (Inr ms, st1)"
    using load_each_stable_Inr [of ?lm st1 ?g, OF m1] ms by simp
  have b: "load_each ?ln (as @ names # bs) st1 = (Inl e, st1)"
    using load_each_stable_Inl [of ?ln st1 ?h as names e bs, OF n1 before raises] .
  show ?thesis
    unfolding load_jsonrpc_service_fetch [OF get] split a b by simp
qed

lemma method_names_distinct: "distinct method_names"
  by (simp add: method_names_def)

lemma from_js_spec_method_typenames:
  "method_of_schema (from_js_spec accepts) schema name = Inr m \<Longrightarrow>
   field_typename (method_request m) = name @ ''Request''
   \<and> field_typename (method_response m) = name @ ''Response''"
  by (auto simp: method_of_schema_def Let_def and_then_Inr_iff from_js_spec_def
      split: if_splits)

lemma map_Inr_typenames:
  assumes "map g xs = map Inr ms"
    and "\<And>x m. g x = Inr m \<Longrightarrow> f m = k x"
  shows "map f ms = map k xs"
  using assms(1)
proof (induction xs arbitrary: ms)
  case Nil
  then show ?case by simp
next
  case (Cons x xs)
  then obtain m ms' where "ms = m # ms'" "g x = Inr m" "map g xs = map Inr ms'"
    by (cases ms) auto
  with Cons.IH [of ms'] assms(2) [of x m] show ?case by simp
qed

lemma from_js_spec_service_typenames:
  assumes "load_jsonrpc_service (from_js_spec accepts) json_load artifact st = (Inr svc, st')"
  shows "map (\<lambda>m. field_typename (method_request m)) (service_methods svc)
           = map (\<lambda>name. name @ ''Request'') method_names"
    and "map (\<lambda>m. field_typename (method_response m)) (service_methods svc)
           = map (\<lambda>name. name @ ''Response'') method_names"
proof -
  from assms obtain b where
    ms: "map (method_of_schema (from_js_spec accepts) (snd b)) method_names
           = map Inr (service_methods svc)"
    by (rule load_jsonrpc_service_Inr) auto
  show "map (\<lambda>m. field_typename (method_request m)) (service_methods svc)
           = map (\<lambda>name. name @ ''Request'') method_names"
    using ms by (rule map_Inr_typenames) (simp add: from_js_spec_method_typenames)
  show "map (\<lambda>m. field_typename (method_response m)) (service_methods svc)
           = map (\<lambda>name. name @ ''Response'') method_names"
    using ms by (rule map_Inr_typenames) (simp add: from_js_spec_method_typenames)
qed

lemma distinct_map_append: "distinct xs \<Longrightarrow> distinct (map (\<lambda>x. x @ s) xs)"
  by (simp add: distinct_map inj_on_def)

lemma map_of_map_const:
  "x \<in> set xs \<Longrightarrow> map_of (map (\<lambda>x. (f x, v)) xs) (f x) = Some v"
  by (induction xs) auto

lemma map_of_concat_const:
  assumes "x \<in> set xs"
  shows "map_of (concat (map (\<lambda>x. [(f x, v), (g x, v)]) xs)) (f x) = Some v"
    and "map_of (concat (map (\<lambda>x. [(f x, v), (g x, v)]) xs)) (g x) = Some v"
  using assms by (induction xs) auto

lemma bundle_of_method:
  assumes "name \<in> set ms"
  shows "method_of_schema (from_js_spec (\<lambda>js. True)) (bundle_of ms ns) name =
     Inr \<lparr>method_name = name,
          method_request = \<lparr>field_typename = name @ ''Request''\<rparr>,
          method_response = \<lparr>field_typename = name @ ''Response''\<rparr>\<rparr>"
proof -
  let ?entry = "JObject [(''request'', JObject []), (''response'', JObject [])]"
  let ?ms = "map (\<lambda>name. (''lightning-'' @ lower name @ ''.json'', ?entry)) ms"
  have a: "getitem (bundle_of ms ns) ''methods'' = Inr (JObject ?ms)"
    by (simp add: bundle_of_def)
  have "map_of ?ms (''lightning-'' @ lower name @ ''.json'') = Some ?entry"
    using assms by (rule map_of_map_const)
  then have b: "getitem (JObject ?ms) (''lightning-'' @ lower name @ ''.json'') = Inr ?entry"
    by simp
  show ?thesis
    using method_of_schema_present [of "bundle_of ms ns" "JObject ?ms" name ?entry "JObject []"
        "JObject []" "from_js_spec (\<lambda>js. True)" "\<lparr>field_typename = name\<rparr>"
        "\<lparr>field_typename = name\<rparr>", OF a b]
    by (simp add: from_js_spec_def)
qed

lemma bundle_of_notification:
  assumes "names \<in> set ns"
  shows "notification_of_schema (from_js_spec (\<lambda>js. True)) (bundle_of ms ns) (fst names) (snd names) =
     Inr \<lparr>notification_name = fst names, notification_typename = snd names,
          notification_request = \<lparr>field_typename = ''Stream'' @ snd names @ ''Request''\<rparr>,
          notification_response = \<lparr>field_typename = snd names @ ''Notification''\<rparr>\<rparr>"
proof -
  let ?ns = "concat (map (\<lambda>names.
          [(lower (fst names) @ ''.request.json'', JObject []),
           (lower (fst names) @ ''.schema.json'', JObject [])]) ns)"
  have a: "getitem (bundle_of ms ns) ''notifications'' = Inr (JObject ?ns)"
    by (simp add: bundle_of_def)
  have "map_of ?ns (lower (fst names) @ ''.request.json'') = Some (JObject [])"
    using assms by (rule map_of_concat_const(1))
  then have b: "getitem (JObject ?ns) (lower (fst names) @ ''.request.json'') = Inr (JObject [])"
    by simp
  have "map_of ?ns (lower (fst names) @ ''.schema.json'') = Some (JObject [])"
    using assms by (rule map_of_concat_const(2))
  then have c: "getitem (JObject ?ns) (lower (fst names) @ ''.schema.json'') = Inr (JObject [])"
    by simp
  show ?thesis
    using notification_of_schema_present [of "bundle_of ms ns" "JObject ?ns" "fst names"
        "JObject []" "JObject []" "from_js_spec (\<lambda>js. True)" "\<lparr>field_typename = fst names\<rparr>"
        "\<lparr>field_typename = fst names\<rparr>" "snd names", OF a b c]
    by (simp add: from_js_spec_def)
qed

lemma bundle_of_get:
  "get_schema_bundle (\<lambda>text. Some (bundle_of ms ns)) (Some []) fresh_process
     = (Inr (0, bundle_of ms ns),
        \<lparr>cached = Some (0, bundle_of ms ns), opened = 1, next_id = 1\<rparr>)"
  by (simp add: get_schema_bundle_def fresh_process_def)

lemma bundle_of_service:
  "load_jsonrpc_service (from_js_spec (\<lambda>js. True))
       (\<lambda>text. Some (bundle_of method_names notification_names)) (Some []) fresh_process
     = (Inr \<lparr>service_name = ''Node'',
          service_methods = map (\<lambda>name. \<lparr>method_name = name,
             method_request = \<lparr>field_typename = name @ ''Request''\<rparr>,
             method_response = \<lparr>field_typename = name @ ''Response''\<rparr>\<rparr>) method_names,
          service_notifications = map (\<lambda>names. \<lparr>notification_name = fst names,
             notification_typename = snd names,
             notification_request = \<lparr>field_typename = ''Stream'' @ snd names @ ''Request''\<rparr>,
             notification_response = \<lparr>field_typename = snd names @ ''Notification''\<rparr>\<rparr>)
               notification_names,
          service_includes = [''primitives.proto'']\<rparr>,
        \<lparr>cached = Some (0, bundle_of method_names notification_names), opened = 1,
          next_id = 1\<rparr>)"
  by (rule load_jsonrpc_service_all [OF bundle_of_get])
     (simp_all add: bundle_of_method bundle_of_notification)

lemma map_Inr_exists:
  "\<forall>a\<in>set xs. \<exists>y. g a = Inr y \<Longrightarrow> \<exists>ys. map g xs = map Inr ys"
proof (induction xs)
  case Nil
  then show ?case by simp
next
  case (Cons x xs)
  then obtain y ys where "g x = Inr y" "map g xs = map Inr ys" by auto
  then have "map g (x # xs) = map Inr (y # ys)" by simp
  then show ?case by blast
qed
lemma lower_block_added: "lower ''block_added'' = ''block_added''"
  by (simp add: lower_def lower_char_def)

lemma lower_Getinfo: "lower ''Getinfo'' = ''getinfo''"
  by (simp add: lower_def lower_char_def)

lemma lower_names: "lower ''DoesNotExist'' = ''doesnotexist''" "lower ''ghost'' = ''ghost''"
  "lower ''phantom'' = ''phantom''"
  by (simp_all add: lower_def lower_char_def)

lemma ghost_get:
  "get_schema_bundle (\<lambda>text. Some (JObject [(''methods'', JObject []),
      (''notifications'', JObject [(''ghost.request.json'', JObject [])])])) (Some []) fresh_process
   = (Inr (0, JObject [(''methods'', JObject []),
      (''notifications'', JObject [(''ghost.request.json'', JObject [])])]),
      \<lparr>cached = Some (0, JObject [(''methods'', JObject []),
      (''notifications'', JObject [(''ghost.request.json'', JObject [])])]), opened = 1, next_id = 1\<rparr>)"
  by (simp add: get_schema_bundle_def fresh_process_def)

lemma load_jsonrpc_method_fst_cases:
  obtains (raise) e st1 where "get_schema_bundle json_load artifact st = (Inl e, st1)"
      "\<And>name. fst (load_jsonrpc_method from_js json_load artifact name st) = Inl e"
      "\<And>name typename.
         fst (load_notification from_js json_load artifact name typename st) = Inl e"
  | (fetch) b st1 where "get_schema_bundle json_load artifact st = (Inr b, st1)"
      "\<And>name. fst (load_jsonrpc_method from_js json_load artifact name st)
         = method_of_schema from_js (snd b) name"
      "\<And>name typename.
         fst (load_notification from_js json_load artifact name typename st)
         = notification_of_schema from_js (snd b) name typename"
proof -
  obtain r st1 where get: "get_schema_bundle json_load artifact st = (r, st1)"
    by (cases "get_schema_bundle json_load artifact st") auto
  show thesis
  proof (cases r)
    case (Inl e)
    with get have g: "get_schema_bundle json_load artifact st = (Inl e, st1)" by simp
    show ?thesis
      by (rule raise [OF g]) (simp_all add: load_jsonrpc_method_raise [OF g]
          load_notification_raise [OF g])
  next
    case (Inr b)
    with get have g: "get_schema_bundle json_load artifact st = (Inr b, st1)" by simp
    show ?thesis
      by (rule fetch [OF g]) (simp_all add: load_jsonrpc_method_fetch [OF g]
          load_notification_fetch [OF g])
  qed
qed

lemma hd_method_names: "''Getinfo'' \<in> set method_names"
  by (simp add: method_names_def)

section \<open>Lemmas on the bundler\<close>

lemma update_fresh: "k \<notin> fst ` set al \<Longrightarrow> AList.update k v al = al @ [(k, v)]"
  by (induction al) auto

lemma load_file_Inr: "load_file json_load f = Inr j \<longleftrightarrow> (\<exists>text. f = File text \<and> json_load text = Some j)"
  by (cases f) (auto split: option.splits)


lemma parse_files_Inr:
  assumes "parse_files keep json_load files acc = Inr out"
    and "distinct (map fst files)"
    and "fst ` set files \<inter> fst ` set acc = {}"
  shows "\<exists>new. out = acc @ new \<and> map fst new = filter keep (map fst files)
     \<and> (\<forall>(name, j)\<in>set new. \<exists>text. (name, File text) \<in> set files \<and> json_load text = Some j)"
  using assms
proof (induction files arbitrary: acc)
  case Nil
  then show ?case by simp
next
  case (Cons a files)
  obtain name f where a: "a = (name, f)" by (cases a)
  show ?case
  proof (cases "keep name")
    case False
    with Cons.prems a have "parse_files keep json_load files acc = Inr out" by simp
    moreover have "distinct (map fst files)" "fst ` set files \<inter> fst ` set acc = {}"
      using Cons.prems by auto
    ultimately obtain new where "out = acc @ new" "map fst new = filter keep (map fst files)"
      "\<forall>(name, j)\<in>set new. \<exists>text. (name, File text) \<in> set files \<and> json_load text = Some j"
      using Cons.IH by blast
    with False a show ?thesis by (intro exI [of _ new]) auto
  next
    case True
    with Cons.prems a obtain j where j: "load_file json_load f = Inr j"
      and rest: "parse_files keep json_load files (AList.update name j acc) = Inr out"
      by (auto split: sum.splits)
    have fresh: "name \<notin> fst ` set acc" using Cons.prems a by auto
    have upd: "AList.update name j acc = acc @ [(name, j)]" using fresh by (rule update_fresh)
    have d: "distinct (map fst files)" using Cons.prems by simp
    have "name \<notin> fst ` set files" using Cons.prems a by auto
    then have "fst ` set files \<inter> fst ` set (acc @ [(name, j)]) = {}"
      using Cons.prems by auto
    with Cons.IH [of "acc @ [(name, j)]"] rest upd d
    obtain new where new: "out = (acc @ [(name, j)]) @ new"
      "map fst new = filter keep (map fst files)"
      "\<forall>(name, j)\<in>set new. \<exists>text. (name, File text) \<in> set files \<and> json_load text = Some j"
      by auto
    obtain t where "f = File t" "json_load t = Some j"
      using j by (auto simp: load_file_Inr)
    with new True a show ?thesis by (intro exI [of _ "(name, j) # new"]) auto
  qed
qed




lemma rearranges_set: "rearranges order \<Longrightarrow> set (order xs) = set xs"
  unfolding rearranges_def by (metis mset_eq_setD)

lemma sorted_listing:
  assumes "rearranges order" and "distinct (map fst children)"
  shows "sort_key fst (order children) = sort_key fst children"
proof (rule sort_key_eq_sort_key)
  show "mset (order children) = mset children"
    using assms(1) by (simp add: rearranges_def)
  show "inj_on fst (set (order children))"
    using assms by (simp add: rearranges_set distinct_map)
qed

lemma map_insort_key: "map f (insort_key f x ys) = insort (f x) (map f ys)"
  by (induction ys) auto

lemma map_sort_key: "map f (sort_key f xs) = sort (map f xs)"
  by (induction xs) (auto simp: map_insort_key)

lemma well_formed_notification:
  assumes "well_formed (Dir children)" and "map_of children name = Some (Dir nchildren)"
  shows "distinct (map fst nchildren)"
proof -
  have "(name, Dir nchildren) \<in> set children" using assms(2) by (rule map_of_SomeD)
  moreover have "\<forall>c\<in>set children. well_formed (snd c)" using assms(1) by simp
  ultimately have "well_formed (snd (name, Dir nchildren))" by blast
  then show ?thesis by simp
qed

lemma combine_schemas_rerun:
  "combine_schemas order json_load dump_raises schema_dir
     (snd (combine_schemas order json_load dump_raises schema_dir dest))
   = combine_schemas order json_load dump_raises schema_dir dest"
proof (cases "collect_schemas order json_load schema_dir")
  case (Inl e)
  then show ?thesis by (simp add: combine_schemas_def)
next
  case (Inr b)
  then show ?thesis
    by (cases dest; cases "dump_raises b") (auto simp: combine_schemas_def)
qed

lemma collect_schemas_canonical:
  assumes "rearranges order" and "\<forall>d. schema_dir = Some d \<longrightarrow> well_formed d"
  shows "collect_schemas order json_load schema_dir
       = collect_schemas (\<lambda>children. children) json_load schema_dir"
proof (cases schema_dir)
  case None
  then show ?thesis by (simp add: collect_schemas_def)
next
  case (Some d)
  show ?thesis
  proof (cases d)
    case (File t)
    with Some show ?thesis by (simp add: collect_schemas_def)
  next
    case (Dir children)
    have wf: "well_formed (Dir children)" using assms(2) Some Dir by simp
    then have "distinct (map fst children)" by simp
    then have a: "sort_key fst (order children) = sort_key fst children"
      by (rule sorted_listing [OF assms(1)])
    show ?thesis
    proof (cases "map_of children ''notification''")
      case None
      then show ?thesis
        unfolding collect_schemas_def \<open>schema_dir = Some d\<close> Dir by (simp add: a)
    next
      case n: (Some n)
      show ?thesis
      proof (cases n)
        case (File t)
        then show ?thesis
          unfolding collect_schemas_def \<open>schema_dir = Some d\<close> Dir by (simp add: a n)
      next
        case nd: (Dir nchildren)
        have "map_of children ''notification'' = Some (Dir nchildren)"
          using n nd by simp
        then have "distinct (map fst nchildren)"
          by (rule well_formed_notification [OF wf])
        then have b: "sort_key fst (order nchildren) = sort_key fst nchildren"
          by (rule sorted_listing [OF assms(1)])
        show ?thesis
          unfolding collect_schemas_def \<open>schema_dir = Some d\<close> Dir by (simp add: a b n nd)
      qed
    qed
  qed
qed

lemma example_collect:
  "collect_schemas rev example_json_load (Some example_dir) =
     Inr (JObject
        [(''methods'',
          JObject
           [(''lightning-a.json'', JArray [JNumber ''1'']),
            (''lightning-b.json'', JObject [])]),
         (''notifications'',
          JObject
           [(''x.request.json'', JObject []),
            (''x.schema.json'', JObject [])])])"
  by (simp add: collect_schemas_def example_dir_def example_json_load_def method_file_def
      notification_file_def endswith_def)

lemma example_dumps:
  "dumps 2 0 (JObject
        [(''methods'',
          JObject
           [(''lightning-a.json'', JArray [JNumber ''1'']),
            (''lightning-b.json'', JObject [])]),
         (''notifications'',
          JObject
           [(''x.request.json'', JObject []),
            (''x.schema.json'', JObject [])])]) =
    join [CHR 0x0A]
      [''{'',
       ''  '' @ [CHR 0x22] @ ''methods'' @ [CHR 0x22] @ '': {'',
       ''    '' @ [CHR 0x22] @ ''lightning-a.json'' @ [CHR 0x22] @ '': ['',
       ''      1'',
       ''    ],'',
       ''    '' @ [CHR 0x22] @ ''lightning-b.json'' @ [CHR 0x22] @ '': {}'',
       ''  },'',
       ''  '' @ [CHR 0x22] @ ''notifications'' @ [CHR 0x22] @ '': {'',
       ''    '' @ [CHR 0x22] @ ''x.request.json'' @ [CHR 0x22] @ '': {},'',
       ''    '' @ [CHR 0x22] @ ''x.schema.json'' @ [CHR 0x22] @ '': {}'',
       ''  }'',
       ''}'']"
  by (simp add: newline_indent_def encode_basestring_ascii_def escape_char_def eval_nat_numeral)

lemma rearranges_rev: "rearranges rev"
  by (simp add: rearranges_def)

lemma rearranges_id: "rearranges (\<lambda>xs. xs)"
  by (simp add: rearranges_def)

lemma example_dir_well_formed: "well_formed example_dir"
  by (simp add: example_dir_def)

lemma collect_schemas_Inr:
  assumes "rearranges order" and "well_formed (Dir children)"
    and "collect_schemas order json_load (Some (Dir children)) = Inr bundle"
  shows "\<exists>methods notifications nchildren.
     map_of children ''notification'' = Some (Dir nchildren)
     \<and> bundle = JObject [(''methods'', JObject methods), (''notifications'', JObject notifications)]
     \<and> map fst methods = filter method_file (sort (map fst children))
     \<and> (\<forall>(name, j)\<in>set methods.
           \<exists>text. (name, File text) \<in> set children \<and> json_load text = Some j)
     \<and> map fst notifications = filter notification_file (sort (map fst nchildren))
     \<and> (\<forall>(name, j)\<in>set notifications.
           \<exists>text. (name, File text) \<in> set nchildren \<and> json_load text = Some j)"
proof -
  have c: "collect_schemas (\<lambda>children. children) json_load (Some (Dir children)) = Inr bundle"
    using collect_schemas_canonical [OF assms(1), of "Some (Dir children)" json_load] assms(2,3)
    by simp
  then obtain methods nfiles notifications where
    m: "parse_files method_file json_load (sort_key fst children) [] = Inr methods"
    and nf: "iterdir (\<lambda>children. children) (map_of children ''notification'') = Inr nfiles"
    and n: "parse_files notification_file json_load (sort_key fst nfiles) [] = Inr notifications"
    and b: "bundle = JObject (AList.update ''notifications'' (JObject notifications)
                    (AList.update ''methods'' (JObject methods) []))"
    by (auto simp: collect_schemas_def and_then_Inr_iff)
  from nf have nc: "map_of children ''notification'' = Some (Dir nfiles)"
    by (cases "map_of children ''notification''"; cases "the (map_of children ''notification'')")
       auto
  have d: "distinct (map fst children)" using assms(2) by simp
  have dn: "distinct (map fst nfiles)" using well_formed_notification [OF assms(2) nc] .
  obtain new where new: "methods = [] @ new"
    "map fst new = filter method_file (map fst (sort_key fst children))"
    "\<forall>(name, j)\<in>set new. \<exists>text. (name, File text) \<in> set (sort_key fst children)
        \<and> json_load text = Some j"
    using parse_files_Inr [OF m] d by (auto simp: map_sort_key)
  obtain new' where new': "notifications = [] @ new'"
    "map fst new' = filter notification_file (map fst (sort_key fst nfiles))"
    "\<forall>(name, j)\<in>set new'. \<exists>text. (name, File text) \<in> set (sort_key fst nfiles)
        \<and> json_load text = Some j"
    using parse_files_Inr [OF n] dn by (auto simp: map_sort_key)
  show ?thesis
    using nc b new new' by (intro exI [of _ methods] exI [of _ notifications] exI [of _ nfiles])
      (simp add: map_sort_key)
qed

lemma top_level_layout:
  "dumps 2 0 (JObject [(''methods'', JObject methods), (''notifications'', JObject notifications)])
     = ''{'' @ [CHR 0x0A]
       @ ''  '' @ [CHR 0x22] @ ''methods'' @ [CHR 0x22] @ '': '' @ dumps 2 1 (JObject methods)
       @ '','' @ [CHR 0x0A]
       @ ''  '' @ [CHR 0x22] @ ''notifications'' @ [CHR 0x22] @ '': ''
       @ dumps 2 1 (JObject notifications)
       @ [CHR 0x0A] @ ''}''"
  by (simp add: newline_indent_def encode_basestring_ascii_def escape_char_def eval_nat_numeral)

lemma combine_schemas_Inr:
  "combine_schemas order json_load dump_raises schema_dir dest = (Inr bundle, dest') \<longleftrightarrow>
   collect_schemas order json_load schema_dir = Inr bundle
   \<and> (\<exists>old. dest = Inr old) \<and> dump_raises bundle = None
   \<and> dest' = Inr (Some (dumps 2 0 bundle))"
proof (cases "collect_schemas order json_load schema_dir")
  case (Inl e)
  then show ?thesis by (simp add: combine_schemas_def)
next
  case (Inr b)
  then show ?thesis
    by (cases dest; cases "dump_raises b") (auto simp: combine_schemas_def)
qed


lemma combine_schemas_dump_raises:
  "collect_schemas order json_load schema_dir = Inr b \<Longrightarrow>
   dump_raises b = Some (e, written) \<Longrightarrow>
   combine_schemas order json_load dump_raises schema_dir (Inr old)
     = (Inl e, Inr (Some written))"
  by (simp add: combine_schemas_def)

lemma collect_schemas_Dir:
  "collect_schemas order json_load (Some d) = Inr bundle \<Longrightarrow> \<exists>children. d = Dir children"
  by (cases d) (auto simp: collect_schemas_def)

lemma example_combine:
  "combine_schemas rev example_json_load dump_completes (Some example_dir) (Inr None) =
     (Inr (JObject
        [(''methods'',
          JObject
           [(''lightning-a.json'', JArray [JNumber ''1'']),
            (''lightning-b.json'', JObject [])]),
         (''notifications'',
          JObject
           [(''x.request.json'', JObject []),
            (''x.schema.json'', JObject [])])]),
      Inr (Some (join [CHR 0x0A]
      [''{'',
       ''  '' @ [CHR 0x22] @ ''methods'' @ [CHR 0x22] @ '': {'',
       ''    '' @ [CHR 0x22] @ ''lightning-a.json'' @ [CHR 0x22] @ '': ['',
       ''      1'',
       ''    ],'',
       ''    '' @ [CHR 0x22] @ ''lightning-b.json'' @ [CHR 0x22] @ '': {}'',
       ''  },'',
       ''  '' @ [CHR 0x22] @ ''notifications'' @ [CHR 0x22] @ '': {'',
       ''    '' @ [CHR 0x22] @ ''x.request.json'' @ [CHR 0x22] @ '': {},'',
       ''    '' @ [CHR 0x22] @ ''x.schema.json'' @ [CHR 0x22] @ '': {}'',
       ''  }'',
       ''}''])))"
  unfolding combine_schemas_def example_collect example_dumps [symmetric]
  by (simp add: dump_completes_def)





section \<open>The claims\<close>

text \<open>
  C4. \<^verbatim>\<open>get_schema_bundle\<close> is idempotent within one process: after a call that returned,
  every later call returns the same object (same identity, same value) and leaves the state
  of the process as it is: the artifact is not opened again and no object is created,
  whatever the storage holds by then, even nothing, and whatever the parser would do.
\<close>

theorem get_schema_bundle_idempotent:
  "get_schema_bundle json_load artifact st = (Inr b, st') \<Longrightarrow>
   get_schema_bundle json_load' artifact' st' = (Inr b, st')"
  using get_schema_bundle_hit [OF get_schema_bundle_fills] .

theorem get_schema_bundle_idempotent_witness:
  "get_schema_bundle (\<lambda>text. Some (bundle_of [] [])) (Some []) fresh_process
     = (Inr (0, bundle_of [] []),
        \<lparr>cached = Some (0, bundle_of [] []), opened = 1, next_id = 1\<rparr>)
   \<and> get_schema_bundle (\<lambda>text. None) None
        \<lparr>cached = Some (0, bundle_of [] []), opened = 1, next_id = 1\<rparr>
     = (Inr (0, bundle_of [] []),
        \<lparr>cached = Some (0, bundle_of [] []), opened = 1, next_id = 1\<rparr>)"
  using get_schema_bundle_idempotent [OF bundle_of_get [of "[]" "[]"],
      where json_load' = "\<lambda>text. None" and artifact' = None]
    bundle_of_get [of "[]" "[]"]
  by simp

text \<open>
  C10. Whenever \<^verbatim>\<open>load_jsonrpc_service\<close> returns, the service it returns is named
  \<^verbatim>\<open>Node\<close> and has 96 methods and 5 notifications, whatever the bundle holds.
\<close>

theorem load_jsonrpc_service_node:
  "load_jsonrpc_service from_js json_load artifact st = (Inr svc, st') \<Longrightarrow>
   service_name svc = ''Node'' \<and> length (service_methods svc) = 96
     \<and> length (service_notifications svc) = 5"
  by (rule load_jsonrpc_service_sizes)

theorem load_jsonrpc_service_node_witness:
  "\<exists>svc st'. load_jsonrpc_service (from_js_spec (\<lambda>js. True))
       (\<lambda>text. Some (bundle_of method_names notification_names)) (Some []) fresh_process
       = (Inr svc, st')
     \<and> service_name svc = ''Node'' \<and> length (service_methods svc) = 96
     \<and> length (service_notifications svc) = 5"
  using load_jsonrpc_service_node [OF bundle_of_service] bundle_of_service by blast

text \<open>
  C1. When the bundle holds the key \<^verbatim>\<open>lightning-<lowercased M>.json\<close> with a request and
  a response subtree that the builder turns into composite fields,
  \<^verbatim>\<open>load_jsonrpc_method(M)\<close> returns a method whose request type name is the builder's
  name with \<^verbatim>\<open>Request\<close> appended and whose response type name is the builder's name with
  \<^verbatim>\<open>Response\<close> appended, and the two differ, whatever names the builder gave; any method
  the loader returns has two different type names. With the builder of the spec, no two
  methods of the service share a request type name or a response type name, and no request
  type name is a response type name.
\<close>

theorem load_jsonrpc_method_typenames:
  "(get_schema_bundle json_load artifact st = (Inr b, st')
      \<and> getitem (snd b) ''methods'' = Inr ms
      \<and> getitem ms (''lightning-'' @ lower name @ ''.json'') = Inr entry
      \<and> getitem entry ''request'' = Inr rq \<and> getitem entry ''response'' = Inr rs
      \<and> from_js rq name = Inr request \<and> from_js rs name = Inr response \<longrightarrow>
    (\<exists>m. load_jsonrpc_method from_js json_load artifact name st = (Inr m, st')
      \<and> field_typename (method_request m) = field_typename request @ ''Request''
      \<and> field_typename (method_response m) = field_typename response @ ''Response''
      \<and> field_typename (method_request m) \<noteq> field_typename (method_response m)))
   \<and> (\<forall>m. fst (load_jsonrpc_method from_js json_load artifact name st) = Inr m \<longrightarrow>
      field_typename (method_request m) \<noteq> field_typename (method_response m))
   \<and> (\<forall>svc st''. load_jsonrpc_service (from_js_spec accepts) json_load artifact st = (Inr svc, st'')
      \<longrightarrow> distinct (map (\<lambda>m. field_typename (method_request m)) (service_methods svc))
        \<and> distinct (map (\<lambda>m. field_typename (method_response m)) (service_methods svc))
        \<and> set (map (\<lambda>m. field_typename (method_request m)) (service_methods svc))
           \<inter> set (map (\<lambda>m. field_typename (method_response m)) (service_methods svc)) = {})"
proof (intro conjI impI allI)
  assume a: "get_schema_bundle json_load artifact st = (Inr b, st')
      \<and> getitem (snd b) ''methods'' = Inr ms
      \<and> getitem ms (''lightning-'' @ lower name @ ''.json'') = Inr entry
      \<and> getitem entry ''request'' = Inr rq \<and> getitem entry ''response'' = Inr rs
      \<and> from_js rq name = Inr request \<and> from_js rs name = Inr response"
  then show "\<exists>m. load_jsonrpc_method from_js json_load artifact name st = (Inr m, st')
      \<and> field_typename (method_request m) = field_typename request @ ''Request''
      \<and> field_typename (method_response m) = field_typename response @ ''Response''
      \<and> field_typename (method_request m) \<noteq> field_typename (method_response m)"
    by (simp add: load_jsonrpc_method_def method_of_schema_def typename_suffixes_differ)
next
  fix m
  assume "fst (load_jsonrpc_method from_js json_load artifact name st) = Inr m"
  then obtain b where "method_of_schema from_js (snd b) name = Inr m"
    by (auto simp: load_jsonrpc_method_def split: prod.splits sum.splits)
  then show "field_typename (method_request m) \<noteq> field_typename (method_response m)"
    by (rule method_of_schema_typenames)
next
  fix svc st''
  assume s: "load_jsonrpc_service (from_js_spec accepts) json_load artifact st = (Inr svc, st'')"
  note rq = from_js_spec_service_typenames(1) [OF s]
  note rs = from_js_spec_service_typenames(2) [OF s]
  show "distinct (map (\<lambda>m. field_typename (method_request m)) (service_methods svc))"
    unfolding rq using method_names_distinct by (rule distinct_map_append)
  show "distinct (map (\<lambda>m. field_typename (method_response m)) (service_methods svc))"
    unfolding rs using method_names_distinct by (rule distinct_map_append)
  show "set (map (\<lambda>m. field_typename (method_request m)) (service_methods svc))
           \<inter> set (map (\<lambda>m. field_typename (method_response m)) (service_methods svc)) = {}"
    unfolding rq rs using typename_suffixes_differ by auto
qed

theorem load_jsonrpc_method_typenames_witness:
  "(\<exists>m st'. load_jsonrpc_method (from_js_spec (\<lambda>js. True))
        (\<lambda>text. Some (bundle_of [''Getinfo''] [])) (Some []) ''Getinfo'' fresh_process
        = (Inr m, st')
      \<and> field_typename (method_request m) = ''GetinfoRequest''
      \<and> field_typename (method_response m) = ''GetinfoResponse'')
   \<and> (\<exists>svc st'. load_jsonrpc_service (from_js_spec (\<lambda>js. True))
        (\<lambda>text. Some (bundle_of method_names notification_names)) (Some []) fresh_process
        = (Inr svc, st')
      \<and> distinct (map (\<lambda>m. field_typename (method_request m)) (service_methods svc))
      \<and> distinct (map (\<lambda>m. field_typename (method_response m)) (service_methods svc)))"
proof -
  let ?entry = "JObject [(''request'', JObject []), (''response'', JObject [])]"
  let ?ms = "JObject [(''lightning-getinfo.json'', ?entry)]"
  have h: "get_schema_bundle (\<lambda>text. Some (bundle_of [''Getinfo''] [])) (Some []) fresh_process
         = (Inr (0, bundle_of [''Getinfo''] []),
            \<lparr>cached = Some (0, bundle_of [''Getinfo''] []), opened = 1, next_id = 1\<rparr>)
      \<and> getitem (snd (0::nat, bundle_of [''Getinfo''] [])) ''methods'' = Inr ?ms
      \<and> getitem ?ms (''lightning-'' @ lower ''Getinfo'' @ ''.json'') = Inr ?entry
      \<and> getitem ?entry ''request'' = Inr (JObject [])
      \<and> getitem ?entry ''response'' = Inr (JObject [])
      \<and> from_js_spec (\<lambda>js. True) (JObject []) ''Getinfo'' = Inr \<lparr>field_typename = ''Getinfo''\<rparr>
      \<and> from_js_spec (\<lambda>js. True) (JObject []) ''Getinfo'' = Inr \<lparr>field_typename = ''Getinfo''\<rparr>"
    using bundle_of_get [of "[''Getinfo'']" "[]"]
    by (simp add: bundle_of_def lower_Getinfo from_js_spec_def)
  have 1: "\<exists>m st'. load_jsonrpc_method (from_js_spec (\<lambda>js. True))
        (\<lambda>text. Some (bundle_of [''Getinfo''] [])) (Some []) ''Getinfo'' fresh_process
        = (Inr m, st')
      \<and> field_typename (method_request m) = ''GetinfoRequest''
      \<and> field_typename (method_response m) = ''GetinfoResponse''"
    using load_jsonrpc_method_typenames [where from_js = "from_js_spec (\<lambda>js. True)"
        and name = "''Getinfo''", THEN conjunct1, rule_format, OF h] by auto
  have 2: "\<exists>svc st'. load_jsonrpc_service (from_js_spec (\<lambda>js. True))
        (\<lambda>text. Some (bundle_of method_names notification_names)) (Some []) fresh_process
        = (Inr svc, st')
      \<and> distinct (map (\<lambda>m. field_typename (method_request m)) (service_methods svc))
      \<and> distinct (map (\<lambda>m. field_typename (method_response m)) (service_methods svc))"
    using load_jsonrpc_method_typenames [THEN conjunct2, THEN conjunct2, rule_format,
        OF bundle_of_service] bundle_of_service by blast
  show ?thesis using 1 2 by blast
qed

text \<open>
  C2. When the bundle holds both keys \<^verbatim>\<open><lowercased name>.request.json\<close> and
  \<^verbatim>\<open><lowercased name>.schema.json\<close>, and the builder turns both entries into composite
  fields, \<^verbatim>\<open>load_notification(name, typename)\<close> returns a notification with that name
  and type name whose request is named \<^verbatim>\<open>"Stream" + typename + "Request"\<close> and whose
  response is named \<^verbatim>\<open>typename + "Notification"\<close>.
\<close>

theorem load_notification_typenames:
  assumes "get_schema_bundle json_load artifact st = (Inr b, st')"
    and "getitem (snd b) ''notifications'' = Inr ns"
    and "getitem ns (lower name @ ''.request.json'') = Inr rq"
    and "getitem ns (lower name @ ''.schema.json'') = Inr rs"
    and "from_js rq name = Inr request"
    and "from_js rs name = Inr response"
  shows "\<exists>n. load_notification from_js json_load artifact name typename st = (Inr n, st')
      \<and> notification_name n = name \<and> notification_typename n = typename
      \<and> field_typename (notification_request n) = ''Stream'' @ typename @ ''Request''
      \<and> field_typename (notification_response n) = typename @ ''Notification''"
  using assms by (simp add: load_notification_def notification_of_schema_def)

theorem load_notification_typenames_witness:
  "\<exists>n st'. load_notification (from_js_spec (\<lambda>js. True))
        (\<lambda>text. Some (bundle_of [] [(''block_added'', ''BlockAdded'')])) (Some [])
        ''block_added'' ''BlockAdded'' fresh_process = (Inr n, st')
      \<and> notification_name n = ''block_added'' \<and> notification_typename n = ''BlockAdded''
      \<and> field_typename (notification_request n) = ''StreamBlockAddedRequest''
      \<and> field_typename (notification_response n) = ''BlockAddedNotification''"
proof -
  let ?b = "bundle_of [] [(''block_added'', ''BlockAdded'')]"
  let ?ns = "JObject [(''block_added.request.json'', JObject []),
                      (''block_added.schema.json'', JObject [])]"
  have 1: "getitem (snd (0::nat, ?b)) ''notifications'' = Inr ?ns"
    by (simp add: bundle_of_def lower_block_added)
  have 2: "getitem ?ns (lower ''block_added'' @ ''.request.json'') = Inr (JObject [])"
    by (simp add: lower_block_added)
  have 3: "getitem ?ns (lower ''block_added'' @ ''.schema.json'') = Inr (JObject [])"
    by (simp add: lower_block_added)
  have 4: "from_js_spec (\<lambda>js. True) (JObject []) ''block_added''
             = Inr \<lparr>field_typename = ''block_added''\<rparr>"
    by (simp add: from_js_spec_def)
  show ?thesis
    using load_notification_typenames [where from_js = "from_js_spec (\<lambda>js. True)"
        and name = "''block_added''" and typename = "''BlockAdded''", OF bundle_of_get 1 2 3 4 4]
    by auto
qed

text \<open>
  C3. The claim: a method whose key is not in the methods mapping, and a notification of
  which the request key or the payload key is not in the notifications mapping, make the
  loader raise a lookup error and return nothing. The loader of a notification looks the
  request up and builds it before it looks the payload up, so when the request entry is
  there and the builder raises on it, that exception is what the caller sees, also when the
  payload key is missing. As amended, with the bundle loaded: a missing method key raises
  \<^verbatim>\<open>KeyError\<close>, a lookup error; a missing request key raises \<^verbatim>\<open>KeyError\<close>; a
  missing payload key makes the loader raise, so that no notification is returned, and it
  raises the \<^verbatim>\<open>KeyError\<close> of that key when the request entry is there and has been
  built, and the exception of the builder when the builder raises on the request entry.
  The closed fact after the example has the request entry of \<^verbatim>\<open>ghost\<close> present and
  rejected and the payload entry missing: what is raised is no lookup error.
\<close>

theorem loaders_lookup_error:
  assumes "get_schema_bundle json_load artifact st = (Inr b, st')"
  shows
   "(getitem (snd b) ''methods'' = Inr (JObject ms)
       \<and> map_of ms (''lightning-'' @ lower name @ ''.json'') = None \<longrightarrow>
     load_jsonrpc_method from_js json_load artifact name st
       = (Inl (KeyError (''lightning-'' @ lower name @ ''.json'')), st')
     \<and> is_LookupError (KeyError (''lightning-'' @ lower name @ ''.json'')))
    \<and> (getitem (snd b) ''notifications'' = Inr (JObject ns)
       \<and> map_of ns (lower name @ ''.request.json'') = None \<longrightarrow>
     load_notification from_js json_load artifact name typename st
       = (Inl (KeyError (lower name @ ''.request.json'')), st')
     \<and> is_LookupError (KeyError (lower name @ ''.request.json'')))
    \<and> (getitem (snd b) ''notifications'' = Inr (JObject ns)
       \<and> map_of ns (lower name @ ''.schema.json'') = None \<longrightarrow>
     (\<exists>e. load_notification from_js json_load artifact name typename st = (Inl e, st'))
     \<and> (\<forall>rq request. map_of ns (lower name @ ''.request.json'') = Some rq
            \<and> from_js rq name = Inr request \<longrightarrow>
          load_notification from_js json_load artifact name typename st
            = (Inl (KeyError (lower name @ ''.schema.json'')), st')
          \<and> is_LookupError (KeyError (lower name @ ''.schema.json'')))
     \<and> (\<forall>rq e. map_of ns (lower name @ ''.request.json'') = Some rq
            \<and> from_js rq name = Inl e \<longrightarrow>
          load_notification from_js json_load artifact name typename st = (Inl e, st')))"
proof (intro conjI impI allI)
  assume "getitem (snd b) ''methods'' = Inr (JObject ms)
       \<and> map_of ms (''lightning-'' @ lower name @ ''.json'') = None"
  then show "load_jsonrpc_method from_js json_load artifact name st
       = (Inl (KeyError (''lightning-'' @ lower name @ ''.json'')), st')"
    using load_jsonrpc_method_fetch [OF assms, of from_js name]
      method_of_schema_absent [of "snd b" ms name from_js] by simp
next
  assume "getitem (snd b) ''notifications'' = Inr (JObject ns)
       \<and> map_of ns (lower name @ ''.request.json'') = None"
  then show "load_notification from_js json_load artifact name typename st
       = (Inl (KeyError (lower name @ ''.request.json'')), st')"
    using load_notification_fetch [OF assms, of from_js name typename]
      notification_of_schema_request_absent [of "snd b" ns name from_js typename] by simp
next
  assume a: "getitem (snd b) ''notifications'' = Inr (JObject ns)
       \<and> map_of ns (lower name @ ''.schema.json'') = None"
  then show "\<exists>e. load_notification from_js json_load artifact name typename st = (Inl e, st')"
    using load_notification_fetch [OF assms, of from_js name typename]
      notification_of_schema_response_absent(1) [of "snd b" ns name from_js typename] by auto
  fix rq request
  assume "map_of ns (lower name @ ''.request.json'') = Some rq \<and> from_js rq name = Inr request"
  then show "load_notification from_js json_load artifact name typename st
            = (Inl (KeyError (lower name @ ''.schema.json'')), st')"
    using a load_notification_fetch [OF assms, of from_js name typename]
      notification_of_schema_response_absent(2) [of "snd b" ns name rq from_js request typename]
    by simp
next
  fix rq e
  assume a: "getitem (snd b) ''notifications'' = Inr (JObject ns)
       \<and> map_of ns (lower name @ ''.schema.json'') = None"
    and b: "map_of ns (lower name @ ''.request.json'') = Some rq \<and> from_js rq name = Inl e"
  have "notification_of_schema from_js (snd b) name typename = Inl e"
    using a b by (simp add: notification_of_schema_def)
  then show "load_notification from_js json_load artifact name typename st = (Inl e, st')"
    using load_notification_fetch [OF assms, of from_js name typename] by simp
qed simp_all

theorem loaders_lookup_error_witness:
  "fst (load_jsonrpc_method (from_js_spec (\<lambda>js. True))
      (\<lambda>text. Some (JObject [(''methods'', JObject []),
         (''notifications'', JObject [(''ghost.request.json'', JObject [])])])) (Some [])
      ''DoesNotExist'' fresh_process) = Inl (KeyError ''lightning-doesnotexist.json'')
   \<and> fst (load_notification (from_js_spec (\<lambda>js. True))
      (\<lambda>text. Some (JObject [(''methods'', JObject []),
         (''notifications'', JObject [(''ghost.request.json'', JObject [])])])) (Some [])
      ''phantom'' ''Phantom'' fresh_process) = Inl (KeyError ''phantom.request.json'')
   \<and> fst (load_notification (from_js_spec (\<lambda>js. True))
      (\<lambda>text. Some (JObject [(''methods'', JObject []),
         (''notifications'', JObject [(''ghost.request.json'', JObject [])])])) (Some [])
      ''ghost'' ''Ghost'' fresh_process) = Inl (KeyError ''ghost.schema.json'')
   \<and> fst (load_notification (from_js_spec accepts_nothing)
      (\<lambda>text. Some (JObject [(''methods'', JObject []),
         (''notifications'', JObject [(''ghost.request.json'', JObject [])])])) (Some [])
      ''ghost'' ''Ghost'' fresh_process) = Inl (SchemaShapeError ''ghost'')"
proof -
  let ?ns = "[(''ghost.request.json'', JObject [])]"
  note t = loaders_lookup_error [OF ghost_get, where from_js = "from_js_spec (\<lambda>js. True)"
      and ms = "[]" and ns = ?ns]
  have 1: "fst (load_jsonrpc_method (from_js_spec (\<lambda>js. True))
      (\<lambda>text. Some (JObject [(''methods'', JObject []),
         (''notifications'', JObject ?ns)])) (Some [])
      ''DoesNotExist'' fresh_process) = Inl (KeyError ''lightning-doesnotexist.json'')"
    using t [where name = "''DoesNotExist''", THEN conjunct1]
    by (simp add: lower_names)
  have 2: "fst (load_notification (from_js_spec (\<lambda>js. True))
      (\<lambda>text. Some (JObject [(''methods'', JObject []),
         (''notifications'', JObject ?ns)])) (Some [])
      ''phantom'' ''Phantom'' fresh_process) = Inl (KeyError ''phantom.request.json'')"
    using t [where name = "''phantom''" and typename = "''Phantom''", THEN conjunct2, THEN conjunct1]
    by (simp add: lower_names)
  have 3: "fst (load_notification (from_js_spec (\<lambda>js. True))
      (\<lambda>text. Some (JObject [(''methods'', JObject []),
         (''notifications'', JObject ?ns)])) (Some [])
      ''ghost'' ''Ghost'' fresh_process) = Inl (KeyError ''ghost.schema.json'')"
    using t [where name = "''ghost''" and typename = "''Ghost''", THEN conjunct2, THEN conjunct2]
    by (simp add: lower_names from_js_spec_def)
  have 4: "fst (load_notification (from_js_spec accepts_nothing)
      (\<lambda>text. Some (JObject [(''methods'', JObject []),
         (''notifications'', JObject ?ns)])) (Some [])
      ''ghost'' ''Ghost'' fresh_process) = Inl (SchemaShapeError ''ghost'')"
    using loaders_lookup_error [OF ghost_get, where from_js = "from_js_spec accepts_nothing"
      and ns = ?ns and name = "''ghost''" and typename = "''Ghost''",
      THEN conjunct2, THEN conjunct2]
    by (simp add: lower_names from_js_spec_def accepts_nothing_def)
  show ?thesis using 1 2 3 4 by simp
qed

theorem load_notification_builder_error_first:
  "getitem ghost_bundle ''notifications'' = Inr (JObject [(''ghost.request.json'', JObject [])])
   \<and> map_of [(''ghost.request.json'', JObject [])] (lower ''ghost'' @ ''.schema.json'') = None
   \<and> fst (load_notification (from_js_spec accepts_nothing) example_json_load None
          ''ghost'' ''Ghost''
          \<lparr>cached = Some (0, ghost_bundle), opened = 1, next_id = 1\<rparr>)
       = Inl (SchemaShapeError ''ghost'')
   \<and> \<not> is_LookupError (SchemaShapeError ''ghost'')"
  by (simp add: load_notification_def get_schema_bundle_def notification_of_schema_def
      ghost_bundle_def lower_names from_js_spec_def accepts_nothing_def)

text \<open>
  C9. When every loader of the manifest returns, \<^verbatim>\<open>load_jsonrpc_service\<close> returns the
  service named \<^verbatim>\<open>Node\<close> whose methods are the loaded methods, one for each method name
  in the order of the manifest, whose notifications are the loaded notifications, one for
  each descriptor in the order of the manifest, and whose includes are
  \<^verbatim>\<open>['primitives.proto']\<close>. When a loader raises, the first one that does ends the
  assembly: the service loader raises the same exception and returns no service.
\<close>

theorem load_jsonrpc_service_assembles:
  "((\<forall>name\<in>set method_names.
        fst (load_jsonrpc_method from_js json_load artifact name st) = Inr (m name))
     \<and> (\<forall>names\<in>set notification_names.
        fst (load_notification from_js json_load artifact (fst names) (snd names) st)
          = Inr (n names)) \<longrightarrow>
     fst (load_jsonrpc_service from_js json_load artifact st)
       = Inr \<lparr>service_name = ''Node'', service_methods = map m method_names,
              service_notifications = map n notification_names,
              service_includes = [''primitives.proto'']\<rparr>)
   \<and> (method_names = as @ name # bs
     \<and> (\<forall>a\<in>set as. \<exists>y. fst (load_jsonrpc_method from_js json_load artifact a st) = Inr y)
     \<and> fst (load_jsonrpc_method from_js json_load artifact name st) = Inl e \<longrightarrow>
     fst (load_jsonrpc_service from_js json_load artifact st) = Inl e)
   \<and> ((\<forall>a\<in>set method_names.
          \<exists>y. fst (load_jsonrpc_method from_js json_load artifact a st) = Inr y)
     \<and> notification_names = as' @ names # bs'
     \<and> (\<forall>a\<in>set as'.
          \<exists>y. fst (load_notification from_js json_load artifact (fst a) (snd a) st) = Inr y)
     \<and> fst (load_notification from_js json_load artifact (fst names) (snd names) st) = Inl e'
     \<longrightarrow> fst (load_jsonrpc_service from_js json_load artifact st) = Inl e')"
proof (cases rule: load_jsonrpc_method_fst_cases [of json_load artifact st from_js])
  case (raise e0 st1)
  have s: "fst (load_jsonrpc_service from_js json_load artifact st) = Inl e0"
    using load_jsonrpc_service_raise [OF raise(1), of from_js] by simp
  show ?thesis
    using raise(2) s hd_method_names by (intro conjI impI) auto
next
  case (fetch b st1)
  let ?g = "method_of_schema from_js (snd b)"
  let ?h = "\<lambda>names. notification_of_schema from_js (snd b) (fst names) (snd names)"
  show ?thesis
  proof (intro conjI impI)
    assume a: "(\<forall>name\<in>set method_names.
        fst (load_jsonrpc_method from_js json_load artifact name st) = Inr (m name))
     \<and> (\<forall>names\<in>set notification_names.
        fst (load_notification from_js json_load artifact (fst names) (snd names) st)
          = Inr (n names))"
    have ms: "map ?g method_names = map Inr (map m method_names)"
      using a by (simp add: fetch(2))
    have ns: "map ?h notification_names = map Inr (map n notification_names)"
      using a by (simp add: fetch(3))
    show "fst (load_jsonrpc_service from_js json_load artifact st)
       = Inr \<lparr>service_name = ''Node'', service_methods = map m method_names,
              service_notifications = map n notification_names,
              service_includes = [''primitives.proto'']\<rparr>"
      using load_jsonrpc_service_all [OF fetch(1) ms ns] by simp
  next
    assume a: "method_names = as @ name # bs
     \<and> (\<forall>a\<in>set as. \<exists>y. fst (load_jsonrpc_method from_js json_load artifact a st) = Inr y)
     \<and> fst (load_jsonrpc_method from_js json_load artifact name st) = Inl e"
    then have "method_names = as @ name # bs" "\<forall>a\<in>set as. \<exists>y. ?g a = Inr y" "?g name = Inl e"
      by (simp_all add: fetch(2))
    from load_jsonrpc_service_method_raises [OF fetch(1) this]
    show "fst (load_jsonrpc_service from_js json_load artifact st) = Inl e" by simp
  next
    assume a: "(\<forall>a\<in>set method_names.
          \<exists>y. fst (load_jsonrpc_method from_js json_load artifact a st) = Inr y)
     \<and> notification_names = as' @ names # bs'
     \<and> (\<forall>a\<in>set as'.
          \<exists>y. fst (load_notification from_js json_load artifact (fst a) (snd a) st) = Inr y)
     \<and> fst (load_notification from_js json_load artifact (fst names) (snd names) st) = Inl e'"
    then have "\<forall>a\<in>set method_names. \<exists>y. ?g a = Inr y" by (simp add: fetch(2))
    then obtain ms where ms: "map ?g method_names = map Inr ms"
      using map_Inr_exists [of method_names ?g] by blast
    from a have "notification_names = as' @ names # bs'" "\<forall>a\<in>set as'. \<exists>y. ?h a = Inr y"
      "?h names = Inl e'"
      by (simp_all add: fetch(3))
    from load_jsonrpc_service_notification_raises [OF fetch(1) ms this]
    show "fst (load_jsonrpc_service from_js json_load artifact st) = Inl e'" by simp
  qed
qed

theorem load_jsonrpc_service_assembles_witness:
  "fst (load_jsonrpc_service (from_js_spec (\<lambda>js. True))
       (\<lambda>text. Some (bundle_of method_names notification_names)) (Some []) fresh_process)
     = Inr \<lparr>service_name = ''Node'',
          service_methods = map (\<lambda>name. \<lparr>method_name = name,
             method_request = \<lparr>field_typename = name @ ''Request''\<rparr>,
             method_response = \<lparr>field_typename = name @ ''Response''\<rparr>\<rparr>) method_names,
          service_notifications = map (\<lambda>names. \<lparr>notification_name = fst names,
             notification_typename = snd names,
             notification_request = \<lparr>field_typename = ''Stream'' @ snd names @ ''Request''\<rparr>,
             notification_response = \<lparr>field_typename = snd names @ ''Notification''\<rparr>\<rparr>)
               notification_names,
          service_includes = [''primitives.proto'']\<rparr>
   \<and> fst (load_jsonrpc_service (from_js_spec (\<lambda>js. True))
       (\<lambda>text. Some (bundle_of [] [])) (Some []) fresh_process)
     = Inl (KeyError ''lightning-getinfo.json'')
   \<and> fst (load_jsonrpc_service (from_js_spec (\<lambda>js. True))
       (\<lambda>text. Some (bundle_of method_names [])) (Some []) fresh_process)
     = Inl (KeyError ''block_added.request.json'')"
proof -
  let ?ff = "from_js_spec (\<lambda>js. True)"
  have m: "\<And>ns. \<forall>name\<in>set method_names.
     fst (load_jsonrpc_method ?ff (\<lambda>text. Some (bundle_of method_names ns)) (Some []) name
            fresh_process)
     = Inr \<lparr>method_name = name,
             method_request = \<lparr>field_typename = name @ ''Request''\<rparr>,
             method_response = \<lparr>field_typename = name @ ''Response''\<rparr>\<rparr>"
    by (simp add: load_jsonrpc_method_fetch [OF bundle_of_get] bundle_of_method)
  have n: "\<forall>names\<in>set notification_names.
     fst (load_notification ?ff (\<lambda>text. Some (bundle_of method_names notification_names))
            (Some []) (fst names) (snd names) fresh_process)
     = Inr \<lparr>notification_name = fst names,
             notification_typename = snd names,
             notification_request = \<lparr>field_typename = ''Stream'' @ snd names @ ''Request''\<rparr>,
             notification_response = \<lparr>field_typename = snd names @ ''Notification''\<rparr>\<rparr>"
    by (simp add: load_notification_fetch [OF bundle_of_get] bundle_of_notification)
  have 1: "fst (load_jsonrpc_service ?ff
       (\<lambda>text. Some (bundle_of method_names notification_names)) (Some []) fresh_process)
     = Inr \<lparr>service_name = ''Node'',
          service_methods = map (\<lambda>name. \<lparr>method_name = name,
             method_request = \<lparr>field_typename = name @ ''Request''\<rparr>,
             method_response = \<lparr>field_typename = name @ ''Response''\<rparr>\<rparr>) method_names,
          service_notifications = map (\<lambda>names. \<lparr>notification_name = fst names,
             notification_typename = snd names,
             notification_request = \<lparr>field_typename = ''Stream'' @ snd names @ ''Request''\<rparr>,
             notification_response = \<lparr>field_typename = snd names @ ''Notification''\<rparr>\<rparr>)
               notification_names,
          service_includes = [''primitives.proto'']\<rparr>"
    using load_jsonrpc_service_assembles [where from_js = ?ff, THEN conjunct1, rule_format,
        OF conjI [OF m n]] .
  have split: "method_names = [] @ ''Getinfo'' # tl method_names"
    by (simp add: method_names_def)
  have "method_of_schema ?ff (bundle_of [] []) ''Getinfo''
      = Inl (KeyError ''lightning-getinfo.json'')"
    using method_of_schema_absent [of "bundle_of [] []" "[]" "''Getinfo''" ?ff]
    by (simp add: bundle_of_def lower_Getinfo)
  then have none: "fst (load_jsonrpc_method ?ff (\<lambda>text. Some (bundle_of [] [])) (Some [])
         ''Getinfo'' fresh_process) = Inl (KeyError ''lightning-getinfo.json'')"
    by (simp add: load_jsonrpc_method_fetch [OF bundle_of_get])
  have 2: "fst (load_jsonrpc_service ?ff (\<lambda>text. Some (bundle_of [] [])) (Some [])
         fresh_process) = Inl (KeyError ''lightning-getinfo.json'')"
    using load_jsonrpc_service_assembles [where from_js = ?ff and as = "[]"
        and name = "''Getinfo''" and bs = "tl method_names",
        THEN conjunct2, THEN conjunct1, rule_format, OF conjI [OF split conjI [OF _ none]]]
    by simp
  have nsplit: "notification_names
      = [] @ (''block_added'', ''BlockAdded'') # tl notification_names"
    by (simp add: notification_names_def)
  have "notification_of_schema ?ff (bundle_of method_names []) ''block_added'' ''BlockAdded''
      = Inl (KeyError ''block_added.request.json'')"
    using notification_of_schema_request_absent [of "bundle_of method_names []" "[]"
        "''block_added''" ?ff "''BlockAdded''"]
    by (simp add: bundle_of_def lower_block_added)
  then have nnone: "fst (load_notification ?ff (\<lambda>text. Some (bundle_of method_names []))
         (Some []) (fst (''block_added'', ''BlockAdded'')) (snd (''block_added'', ''BlockAdded''))
         fresh_process) = Inl (KeyError ''block_added.request.json'')"
    by (simp add: load_notification_fetch [OF bundle_of_get])
  have mex: "\<forall>a\<in>set method_names.
     \<exists>y. fst (load_jsonrpc_method ?ff (\<lambda>text. Some (bundle_of method_names [])) (Some []) a
            fresh_process) = Inr y"
    using m [of "[]"] by simp
  have 3: "fst (load_jsonrpc_service ?ff (\<lambda>text. Some (bundle_of method_names [])) (Some [])
         fresh_process) = Inl (KeyError ''block_added.request.json'')"
    using load_jsonrpc_service_assembles [where from_js = ?ff and as' = "[]"
        and names = "(''block_added'', ''BlockAdded'')" and bs' = "tl notification_names",
        THEN conjunct2, THEN conjunct2, rule_format,
        OF conjI [OF mex conjI [OF nsplit conjI [OF _ nnone]]]]
    by simp
  show ?thesis using 1 2 3 by simp
qed

text \<open>
  C5. The claim: the notifications mapping of the bundle has an entry for exactly the files
  of the notification directory whose names end in \<^verbatim>\<open>.json\<close>. The loop over that
  directory tests \<^verbatim>\<open>endswith("json")\<close>, without the dot that the loop over the methods
  has: a file \<^verbatim>\<open>old_json\<close>, whose name does not end in \<^verbatim>\<open>.json\<close>, gets an entry.
\<close>

theorem combine_schemas_notification_filter:
  "fst (combine_schemas (\<lambda>xs. xs) example_json_load dump_completes
      (Some (Dir [(''notification'', Dir [(''old_json'', File ''{}'')])])) (Inr None))
     = Inr (JObject [(''methods'', JObject []),
                     (''notifications'', JObject [(''old_json'', JObject [])])])
   \<and> \<not> endswith ''old_json'' ''.json''"
  by (simp add: combine_schemas_def collect_schemas_def example_json_load_def method_file_def
      notification_file_def endswith_def dump_completes_def)

text \<open>
  C6. \<^verbatim>\<open>combine_schemas\<close> is deterministic: on a schema directory in which every
  directory holds each name once, the value returned and the text written do not depend on
  the order in which the operating system enumerates the directories, and a second run,
  on the destination the first run left, returns and writes the same again.
\<close>

theorem combine_schemas_deterministic:
  assumes "rearranges order1" and "rearranges order2"
    and "\<forall>d. schema_dir = Some d \<longrightarrow> well_formed d"
  shows "combine_schemas order2 json_load dump_raises schema_dir dest
           = combine_schemas order1 json_load dump_raises schema_dir dest
     \<and> combine_schemas order2 json_load dump_raises schema_dir
           (snd (combine_schemas order1 json_load dump_raises schema_dir dest))
           = combine_schemas order1 json_load dump_raises schema_dir dest"
proof -
  have "collect_schemas order2 json_load schema_dir = collect_schemas order1 json_load schema_dir"
    using collect_schemas_canonical [OF assms(1,3)] collect_schemas_canonical [OF assms(2,3)]
    by simp
  then have eq: "combine_schemas order2 json_load dump_raises schema_dir d
           = combine_schemas order1 json_load dump_raises schema_dir d" for d
    by (simp add: combine_schemas_def)
  show ?thesis using eq combine_schemas_rerun [of order1 json_load dump_raises schema_dir dest] by simp
qed

theorem combine_schemas_deterministic_witness:
  "rearranges (\<lambda>xs :: (string \<times> node) list. xs)
   \<and> rearranges (rev :: (string \<times> node) list \<Rightarrow> (string \<times> node) list)
   \<and> well_formed example_dir
   \<and> combine_schemas rev example_json_load dump_completes (Some example_dir) (Inr None)
       = combine_schemas (\<lambda>xs. xs) example_json_load dump_completes (Some example_dir)
           (Inr None)
   \<and> combine_schemas rev example_json_load dump_completes (Some example_dir)
         (snd (combine_schemas (\<lambda>xs. xs) example_json_load dump_completes
                (Some example_dir) (Inr None)))
       = combine_schemas (\<lambda>xs. xs) example_json_load dump_completes (Some example_dir)
           (Inr None)"
proof -
  have wf: "\<forall>d. Some example_dir = Some d \<longrightarrow> well_formed d"
    using example_dir_well_formed by simp
  show ?thesis
    using combine_schemas_deterministic [OF rearranges_id rearranges_rev wf,
        of example_json_load dump_completes "Inr None"] rearranges_id rearranges_rev example_dir_well_formed
    by blast
qed



text \<open>
  C8. What \<^verbatim>\<open>combine_schemas\<close> writes is the dump, with an indentation of two spaces,
  of an object with the two keys \<^verbatim>\<open>methods\<close> and \<^verbatim>\<open>notifications\<close>, in this order.
  Each is an object whose keys are the names of the files that pass the filter of the
  loop, in the lexicographic order of the names, and the value of a key is what the parser
  returns for the text of that file.
\<close>

theorem combine_schemas_artifact:
  assumes "rearranges order" and "well_formed d"
    and "combine_schemas order json_load dump_raises (Some d) dest = (Inr bundle, dest')"
  shows "\<exists>children nchildren methods notifications.
     d = Dir children \<and> map_of children ''notification'' = Some (Dir nchildren)
     \<and> bundle = JObject [(''methods'', JObject methods), (''notifications'', JObject notifications)]
     \<and> map fst methods = filter method_file (sort (map fst children))
     \<and> (\<forall>(name, j)\<in>set methods.
           \<exists>text. (name, File text) \<in> set children \<and> json_load text = Some j)
     \<and> map fst notifications = filter notification_file (sort (map fst nchildren))
     \<and> (\<forall>(name, j)\<in>set notifications.
           \<exists>text. (name, File text) \<in> set nchildren \<and> json_load text = Some j)
     \<and> dest' = Inr (Some (dumps 2 0 bundle))
     \<and> dumps 2 0 bundle
         = ''{'' @ [CHR 0x0A]
           @ ''  '' @ [CHR 0x22] @ ''methods'' @ [CHR 0x22] @ '': '' @ dumps 2 1 (JObject methods)
           @ '','' @ [CHR 0x0A]
           @ ''  '' @ [CHR 0x22] @ ''notifications'' @ [CHR 0x22] @ '': ''
           @ dumps 2 1 (JObject notifications)
           @ [CHR 0x0A] @ ''}''"
proof -
  have c: "collect_schemas order json_load (Some d) = Inr bundle"
    and w: "dest' = Inr (Some (dumps 2 0 bundle))"
    using assms(3) by (simp_all add: combine_schemas_Inr)
  obtain children where d: "d = Dir children" using collect_schemas_Dir [OF c] by blast
  obtain methods notifications nchildren where
    "map_of children ''notification'' = Some (Dir nchildren)"
    "bundle = JObject [(''methods'', JObject methods), (''notifications'', JObject notifications)]"
    "map fst methods = filter method_file (sort (map fst children))"
    "\<forall>(name, j)\<in>set methods.
           \<exists>text. (name, File text) \<in> set children \<and> json_load text = Some j"
    "map fst notifications = filter notification_file (sort (map fst nchildren))"
    "\<forall>(name, j)\<in>set notifications.
           \<exists>text. (name, File text) \<in> set nchildren \<and> json_load text = Some j"
    using collect_schemas_Inr [OF assms(1), of children json_load "bundle"] assms(2) c d by blast
  then show ?thesis
    using d w top_level_layout [of methods notifications]
    by (intro exI [of _ children] exI [of _ nchildren] exI [of _ methods]
        exI [of _ notifications]) simp
qed

theorem combine_schemas_artifact_witness:
  "rearranges (rev :: (string \<times> node) list \<Rightarrow> (string \<times> node) list)
   \<and> well_formed example_dir
   \<and> (\<exists>children nchildren methods notifications.
     example_dir = Dir children \<and> map_of children ''notification'' = Some (Dir nchildren)
     \<and> map fst methods = filter method_file (sort (map fst children))
     \<and> map fst methods = [''lightning-a.json'', ''lightning-b.json'']
     \<and> map fst notifications = filter notification_file (sort (map fst nchildren))
     \<and> map fst notifications = [''x.request.json'', ''x.schema.json'']
     \<and> combine_schemas rev example_json_load dump_completes (Some example_dir) (Inr None)
       = (Inr (JObject [(''methods'', JObject methods), (''notifications'', JObject notifications)]),
          Inr (Some (join [CHR 0x0A]
      [''{'',
       ''  '' @ [CHR 0x22] @ ''methods'' @ [CHR 0x22] @ '': {'',
       ''    '' @ [CHR 0x22] @ ''lightning-a.json'' @ [CHR 0x22] @ '': ['',
       ''      1'',
       ''    ],'',
       ''    '' @ [CHR 0x22] @ ''lightning-b.json'' @ [CHR 0x22] @ '': {}'',
       ''  },'',
       ''  '' @ [CHR 0x22] @ ''notifications'' @ [CHR 0x22] @ '': {'',
       ''    '' @ [CHR 0x22] @ ''x.request.json'' @ [CHR 0x22] @ '': {},'',
       ''    '' @ [CHR 0x22] @ ''x.schema.json'' @ [CHR 0x22] @ '': {}'',
       ''  }'',
       ''}'']))))"
  using combine_schemas_artifact [OF rearranges_rev example_dir_well_formed example_combine]
    rearranges_rev example_dir_well_formed example_combine
  by auto

end
